theory Spec2Isabelle
  imports Main
begin

section \<open>Data model of the Ethereum indexer\<close>

text \<open>
  The theory embeds \<^verbatim>\<open>safe_transaction_service/history/indexers/ethereum_indexer.py\<close>.
  An address is a string. The monitored-address table is a list of rows, each row an address
  with the value of the indexer's \<^verbatim>\<open>database_field\<close> column (the watermark). Python
  integers are unbounded, so every number is an \<open>int\<close>.
\<close>

type_synonym address = string

type_synonym row = "address \<times> int"

text \<open>
  The exceptions that the engine raises, catches or lets through. \<open>OtherException\<close> stands
  for any exception class outside the \<^verbatim>\<open>except\<close> clause of \<^verbatim>\<open>process_addresses\<close>.
\<close>

datatype error =
    FindRelevantElementsException
  | SoftTimeLimitExceeded
  | Timeout
  | ValueError
  | Web3RPCError
  | NotImplementedError
  | AssertionError
  | TypeError
  | OtherException

text \<open>
  The fields that \<^verbatim>\<open>__init__\<close> stores on \<^verbatim>\<open>self\<close>. \<open>client_block_number\<close> is what
  \<^verbatim>\<open>self.ethereum_client.current_block_number\<close> reads: the chain head, fixed during the
  calls modelled here.
\<close>

record indexer =
  client_block_number :: int
  confirmations :: int
  initial_block_process_limit :: int
  block_process_limit :: int
  block_process_limit_max :: int
  blocks_to_reindex_again :: int
  updated_blocks_behind :: int
  query_chunk_size :: "int option"
  block_auto_process_limit :: bool

text \<open>
  What the engine does to the outside is recorded as a trace: every query and update of
  the table and every call of \<^verbatim>\<open>find_relevant_elements\<close>, in order.
\<close>

datatype event =
    Db_Aggregate_Min "address set option"
  | Db_Filter_Lt_Gte int int
  | Db_Filter_Lte int
  | Db_Update "address set" int int int
  | Find_Call "address set" int int int

record world =
  rows :: "row list"
  trace :: "event list"

definition emit :: "event \<Rightarrow> world \<Rightarrow> world" where
  "emit ev w = w\<lparr>trace := trace w @ [ev]\<rparr>"

text \<open>
  \<^verbatim>\<open>find_relevant_elements\<close> is abstract. An implementation receives \<^verbatim>\<open>self\<close>, the
  addresses, the block range and the current block number; it returns the elements or
  raises, and it may leave a new \<^verbatim>\<open>self.block_process_limit\<close> behind (implementations
  wrap their fetch in \<^verbatim>\<open>auto_adjust_block_limit\<close>). The second component of the result
  is the value of \<^verbatim>\<open>self.block_process_limit\<close> when the call ends. The watermark
  column is written by \<^verbatim>\<open>update_monitored_addresses\<close> only, so an implementation gets
  no access to the table.
\<close>

type_synonym 'e finder =
  "indexer \<Rightarrow> address set \<Rightarrow> int \<Rightarrow> int \<Rightarrow> int \<Rightarrow> (error + 'e list) \<times> int"

type_synonym ('e, 'p) element_processor = "'e \<Rightarrow> error + 'p list"

section \<open>Element processing\<close>

text \<open>The default \<^verbatim>\<open>process_element\<close> raises \<^verbatim>\<open>NotImplementedError\<close>.\<close>

definition process_element :: "('e, 'p) element_processor" where
  "process_element element = Inl NotImplementedError"

text \<open>
  \<^verbatim>\<open>process_elements\<close> processes the elements in order, stops at the first exception and
  flattens the lists of processed objects.
\<close>

fun process_elements :: "('e, 'p) element_processor \<Rightarrow> 'e list \<Rightarrow> error + 'p list" where
  "process_elements pe [] = Inr []"
| "process_elements pe (element # elements) =
     (case pe element of
        Inl e \<Rightarrow> Inl e
      | Inr objs \<Rightarrow>
          (case process_elements pe elements of
             Inl e \<Rightarrow> Inl e
           | Inr others \<Rightarrow> Inr (objs @ others)))"

section \<open>Block range calculation\<close>

text \<open>\<^verbatim>\<open>current_block_number or self.ethereum_client.current_block_number\<close>: \<^verbatim>\<open>None\<close>
  and \<^verbatim>\<open>0\<close> are both falsy.\<close>

definition current_or_client :: "indexer \<Rightarrow> int option \<Rightarrow> int" where
  "current_or_client self current_block_number =
     (case current_block_number of
        None \<Rightarrow> client_block_number self
      | Some n \<Rightarrow> if n = 0 then client_block_number self else n)"

definition get_to_block_number :: "indexer \<Rightarrow> int \<Rightarrow> int \<Rightarrow> int" where
  "get_to_block_number self from_block_number current_block_number =
     min (from_block_number + block_process_limit self - 1)
         (current_block_number - confirmations self)"

text \<open>The \<^verbatim>\<open>Min\<close> aggregate of a queryset: \<^verbatim>\<open>None\<close> on an empty queryset.\<close>

fun aggregate_min :: "int list \<Rightarrow> int option" where
  "aggregate_min [] = None"
| "aggregate_min (x # xs) = Some (fold min xs x)"

definition address_in :: "address set \<Rightarrow> row list \<Rightarrow> row list" where
  "address_in addresses rs = filter (\<lambda>r. fst r \<in> addresses) rs"

text \<open>
  \<^verbatim>\<open>get_from_block_number\<close>: the queryset is filtered by \<^verbatim>\<open>address__in\<close> only when
  \<^verbatim>\<open>addresses\<close> is truthy (given and not empty).
\<close>

definition get_from_block_number ::
  "indexer \<Rightarrow> address set option \<Rightarrow> world \<Rightarrow> int option \<times> world" where
  "get_from_block_number self addresses w =
     (let queryset =
            (case addresses of
               None \<Rightarrow> rows w
             | Some a \<Rightarrow> if a = {} then rows w else address_in a (rows w))
      in (aggregate_min (map snd queryset), emit (Db_Aggregate_Min addresses) w))"

definition get_block_numbers_for_search ::
  "indexer \<Rightarrow> address set \<Rightarrow> int option \<Rightarrow> world \<Rightarrow> (int \<times> int) option \<times> world" where
  "get_block_numbers_for_search self addresses current_block_number w =
     (let current = current_or_client self current_block_number;
          (minimum, w') = get_from_block_number self (Some addresses) w
      in case minimum of
           None \<Rightarrow> (None, w')
         | Some from_block_number \<Rightarrow>
             if current - from_block_number < confirmations self then (None, w')
             else
               let to_block_number = get_to_block_number self from_block_number current;
                   from_block_number' =
                     (if from_block_number + block_process_limit self
                           > current - confirmations self
                      then
                        let blocks_to_reindex =
                              min (block_process_limit self
                                     - (to_block_number - from_block_number + 1))
                                  (blocks_to_reindex_again self)
                        in max (from_block_number - blocks_to_reindex) 0
                      else from_block_number)
               in (Some (from_block_number', to_block_number), w'))"

section \<open>Address tiers\<close>

definition get_almost_updated_addresses ::
  "indexer \<Rightarrow> int \<Rightarrow> world \<Rightarrow> address set \<times> world" where
  "get_almost_updated_addresses self current_block_number w =
     (let (minimum, w') = get_from_block_number self None w;
          from_block_number =
            max (case minimum of None \<Rightarrow> 0 | Some m \<Rightarrow> m)
                (current_block_number - updated_blocks_behind self);
          to_block_number = current_block_number - confirmations self
      in (set (map fst (filter (\<lambda>r. snd r < to_block_number \<and> from_block_number \<le> snd r)
                          (rows w'))),
          emit (Db_Filter_Lt_Gte to_block_number from_block_number) w'))"

definition get_not_updated_addresses ::
  "indexer \<Rightarrow> int \<Rightarrow> world \<Rightarrow> address set \<times> world" where
  "get_not_updated_addresses self current_block_number w =
     (set (map fst (filter (\<lambda>r. snd r \<le> current_block_number - confirmations self)
                      (rows w))),
      emit (Db_Filter_Lte (current_block_number - confirmations self)) w)"

section \<open>Committing the watermark\<close>

text \<open>
  The conditional \<^verbatim>\<open>UPDATE\<close> of \<^verbatim>\<open>update_monitored_addresses\<close>: a row is selected when
  its address is in \<^verbatim>\<open>addresses\<close> and its watermark is at least \<^verbatim>\<open>from_block_number\<close>
  and below \<^verbatim>\<open>to_block_number + 1\<close>.
\<close>

definition selected :: "address set \<Rightarrow> int \<Rightarrow> int \<Rightarrow> row \<Rightarrow> bool" where
  "selected addresses from_block_number new_to_block_number r =
     (fst r \<in> addresses \<and> from_block_number \<le> snd r \<and> snd r < new_to_block_number)"

definition update_rows :: "address set \<Rightarrow> int \<Rightarrow> int \<Rightarrow> row list \<Rightarrow> row list" where
  "update_rows addresses from_block_number new_to_block_number rs =
     map (\<lambda>r. if selected addresses from_block_number new_to_block_number r
              then (fst r, new_to_block_number) else r) rs"

text \<open>
  \<^verbatim>\<open>update_monitored_addresses\<close> returns the number of rows updated (the comparison with
  \<^verbatim>\<open>len(addresses)\<close> only feeds a log message).
\<close>

definition update_monitored_addresses ::
  "indexer \<Rightarrow> address set \<Rightarrow> int \<Rightarrow> int \<Rightarrow> world \<Rightarrow> int \<times> world" where
  "update_monitored_addresses self addresses from_block_number to_block_number w =
     (let new_to_block_number = to_block_number + 1;
          updated_addresses =
            int (length (filter (selected addresses from_block_number new_to_block_number)
                           (rows w)))
      in (updated_addresses,
          emit (Db_Update addresses from_block_number new_to_block_number new_to_block_number)
            (w\<lparr>rows := update_rows addresses from_block_number new_to_block_number (rows w)\<rparr>)))"

section \<open>Adaptive block limit\<close>

text \<open>
  The statements of \<^verbatim>\<open>auto_adjust_block_limit\<close> after the \<^verbatim>\<open>yield\<close>, for a measured
  \<^verbatim>\<open>delta\<close> (a difference of two whole-second clock readings).
\<close>

definition adjust_block_limit :: "indexer \<Rightarrow> int \<Rightarrow> indexer" where
  "adjust_block_limit self delta =
     (let self1 =
            (if delta > 30 then
               self\<lparr>block_process_limit := max (block_process_limit self div 2) 1\<rparr>
             else if delta > 10 then
               self\<lparr>block_process_limit := max (block_process_limit self - 20) 1\<rparr>
             else if delta < 2 then
               self\<lparr>block_process_limit := block_process_limit self * 2\<rparr>
             else if delta < 5 then
               self\<lparr>block_process_limit := block_process_limit self + 20\<rparr>
             else self)
      in if block_process_limit_max self1 \<noteq> 0
            \<and> block_process_limit self1 > block_process_limit_max self1
         then self1\<lparr>block_process_limit := block_process_limit_max self1\<rparr>
         else self1)"

text \<open>
  The context manager. The wrapped block receives \<^verbatim>\<open>self\<close> and yields its outcome, the
  \<^verbatim>\<open>self\<close> it leaves and the seconds it took. The test on the window is made on entry.
  An exception raised by the block leaves the generator at the \<^verbatim>\<open>yield\<close>, so nothing
  after it runs.
\<close>

definition auto_adjust_block_limit ::
  "indexer \<Rightarrow> int \<Rightarrow> int \<Rightarrow> (indexer \<Rightarrow> (error + 'a) \<times> indexer \<times> int)
     \<Rightarrow> (error + 'a) \<times> indexer" where
  "auto_adjust_block_limit self from_block_number to_block_number body =
     (if \<not> (block_auto_process_limit self
             \<and> 1 + to_block_number - from_block_number = block_process_limit self)
      then (case body self of (outcome, self', delta) \<Rightarrow> (outcome, self'))
      else (case body self of
              (Inl e, self', delta) \<Rightarrow> (Inl e, self')
            | (Inr x, self', delta) \<Rightarrow> (Inr x, adjust_block_limit self' delta)))"

section \<open>One batch: \<^verbatim>\<open>process_addresses\<close>\<close>

text \<open>The exception classes named by the \<^verbatim>\<open>except\<close> clause of \<^verbatim>\<open>process_addresses\<close>.\<close>

fun caught :: "error \<Rightarrow> bool" where
  "caught FindRelevantElementsException = True"
| "caught SoftTimeLimitExceeded = True"
| "caught Timeout = True"
| "caught ValueError = True"
| "caught Web3RPCError = True"
| "caught NotImplementedError = False"
| "caught AssertionError = False"
| "caught TypeError = False"
| "caught OtherException = False"

text \<open>
  The body of the \<^verbatim>\<open>try\<close>: \<^verbatim>\<open>find_relevant_elements\<close>, then \<^verbatim>\<open>process_elements\<close>
  on what it found. The result carries the \<^verbatim>\<open>self\<close> that the finder leaves.
\<close>

definition find_and_process ::
  "'e finder \<Rightarrow> ('e, 'p) element_processor \<Rightarrow> indexer \<Rightarrow> address set \<Rightarrow> int \<Rightarrow> int \<Rightarrow> int
     \<Rightarrow> (error + 'p list) \<times> indexer" where
  "find_and_process finder pe self addresses from_block_number to_block_number current =
     (case finder self addresses from_block_number to_block_number current of
        (found, limit) \<Rightarrow>
          (case found of
             Inl e \<Rightarrow> (Inl e, self\<lparr>block_process_limit := limit\<rparr>)
           | Inr elements \<Rightarrow>
               (process_elements pe elements, self\<lparr>block_process_limit := limit\<rparr>)))"

text \<open>
  The result of a batch: processed data, first block number (\<^verbatim>\<open>None\<close> when there was
  no range), last block number, and whether there are no more blocks to scan.
\<close>

type_synonym 'p batch = "'p list \<times> int option \<times> int \<times> bool"

definition process_addresses ::
  "'e finder \<Rightarrow> ('e, 'p) element_processor \<Rightarrow> indexer \<Rightarrow> address set \<Rightarrow> int option \<Rightarrow> world
     \<Rightarrow> (error + 'p batch) \<times> indexer \<times> world" where
  "process_addresses finder pe self addresses current_block_number w =
     (if addresses = {} then (Inl AssertionError, self, w)
      else
        let current = current_or_client self current_block_number
        in case get_block_numbers_for_search self addresses (Some current) w of
             (None, w1) \<Rightarrow> (Inr ([], None, current, True), self, w1)
           | (Some (from_block_number, to_block_number), w1) \<Rightarrow>
               let w2 = emit (Find_Call addresses from_block_number to_block_number current) w1
               in (case find_and_process finder pe self addresses
                          from_block_number to_block_number current of
                     (Inl e, self1) \<Rightarrow>
                       if caught e then (Inl e, self1\<lparr>block_process_limit := 1\<rparr>, w2)
                       else (Inl e, self1, w2)
                   | (Inr processed_elements, self1) \<Rightarrow>
                       (case update_monitored_addresses self1 addresses
                               from_block_number to_block_number w2 of
                          (updated_addresses, w3) \<Rightarrow>
                            if updated_addresses = 0 then (Inl ValueError, self1, w3)
                            else (Inr (processed_elements, Some from_block_number,
                                       to_block_number,
                                       (to_block_number = current - confirmations self)),
                                  self1, w3))))"

section \<open>The two tiers of \<^verbatim>\<open>start\<close>\<close>

text \<open>
  The loop over the almost updated addresses. It carries
  \<^verbatim>\<open>total_number_processed_elements\<close> and \<^verbatim>\<open>start_block\<close>, and returns them with the
  last \<^verbatim>\<open>to_block_number\<close>.
\<close>

function almost_updated_loop ::
  "'e finder \<Rightarrow> ('e, 'p) element_processor \<Rightarrow> address set \<Rightarrow> int \<Rightarrow> indexer \<Rightarrow> world
     \<Rightarrow> int \<Rightarrow> int option \<Rightarrow> (error + int \<times> int option \<times> int) \<times> indexer \<times> world" where
  "almost_updated_loop finder pe addresses current_block_number self w total_processed start_block =
     (case process_addresses finder pe self addresses (Some current_block_number) w of
        (Inl e, self', w') \<Rightarrow> (Inl e, self', w')
      | (Inr (processed_elements, from_block_number, to_block_number, updated), self', w') \<Rightarrow>
          let total_processed' = total_processed + int (length processed_elements);
              start_block' = (if start_block = None then from_block_number else start_block)
          in if updated then (Inr (total_processed', start_block', to_block_number), self', w')
             else almost_updated_loop finder pe addresses current_block_number self' w'
                    total_processed' start_block')"
  by pat_completeness auto

text \<open>
  \<^verbatim>\<open>start_block is None or from_block_number < start_block\<close>: comparing \<^verbatim>\<open>None\<close> with a
  number raises \<^verbatim>\<open>TypeError\<close>.
\<close>

definition lower_start_block :: "int option \<Rightarrow> int option \<Rightarrow> error + int option" where
  "lower_start_block start_block from_block_number =
     (case start_block of
        None \<Rightarrow> Inr from_block_number
      | Some s \<Rightarrow>
          (case from_block_number of
             None \<Rightarrow> Inl TypeError
           | Some f \<Rightarrow> Inr (if f < s then Some f else Some s)))"

text \<open>
  The loop over the not updated addresses. \<^verbatim>\<open>from_block_number += 1\<close> raises
  \<^verbatim>\<open>TypeError\<close> when \<^verbatim>\<open>from_block_number\<close> is \<^verbatim>\<open>None\<close>; the incremented value is
  overwritten by the next iteration and not read after the loop.
\<close>

function not_updated_loop ::
  "'e finder \<Rightarrow> ('e, 'p) element_processor \<Rightarrow> address set \<Rightarrow> int \<Rightarrow> indexer \<Rightarrow> world
     \<Rightarrow> int \<Rightarrow> int option \<Rightarrow> (error + int \<times> int option \<times> int) \<times> indexer \<times> world" where
  "not_updated_loop finder pe addresses current_block_number self w total_processed start_block =
     (case process_addresses finder pe self addresses (Some current_block_number) w of
        (Inl e, self', w') \<Rightarrow> (Inl e, self', w')
      | (Inr (processed_elements, from_block_number, to_block_number, updated), self', w') \<Rightarrow>
          (case lower_start_block start_block from_block_number of
             Inl e \<Rightarrow> (Inl e, self', w')
           | Inr start_block' \<Rightarrow>
               let total_processed' = total_processed + int (length processed_elements)
               in (case from_block_number of
                     None \<Rightarrow> (Inl TypeError, self', w')
                   | Some incremented \<Rightarrow>
                       if updated
                       then (Inr (total_processed', start_block', to_block_number), self', w')
                       else not_updated_loop finder pe addresses current_block_number self' w'
                              total_processed' start_block')))"
  by pat_completeness auto

text \<open>The same loop with the statement \<^verbatim>\<open>from_block_number += 1\<close> removed.\<close>

function not_updated_loop_without_increment ::
  "'e finder \<Rightarrow> ('e, 'p) element_processor \<Rightarrow> address set \<Rightarrow> int \<Rightarrow> indexer \<Rightarrow> world
     \<Rightarrow> int \<Rightarrow> int option \<Rightarrow> (error + int \<times> int option \<times> int) \<times> indexer \<times> world" where
  "not_updated_loop_without_increment finder pe addresses current_block_number self w
       total_processed start_block =
     (case process_addresses finder pe self addresses (Some current_block_number) w of
        (Inl e, self', w') \<Rightarrow> (Inl e, self', w')
      | (Inr (processed_elements, from_block_number, to_block_number, updated), self', w') \<Rightarrow>
          (case lower_start_block start_block from_block_number of
             Inl e \<Rightarrow> (Inl e, self', w')
           | Inr start_block' \<Rightarrow>
               let total_processed' = total_processed + int (length processed_elements)
               in if updated then (Inr (total_processed', start_block', to_block_number), self', w')
                  else not_updated_loop_without_increment finder pe addresses
                         current_block_number self' w' total_processed' start_block'))"
  by pat_completeness auto

section \<open>\<^verbatim>\<open>start\<close>\<close>

text \<open>The last statements of \<^verbatim>\<open>start\<close>: the number of blocks processed.\<close>

definition number_of_blocks_processed :: "int option \<Rightarrow> int option \<Rightarrow> int" where
  "number_of_blocks_processed start_block last_block =
     (case start_block of
        None \<Rightarrow> 0
      | Some s \<Rightarrow> (case last_block of None \<Rightarrow> 0 | Some l \<Rightarrow> l - s + 1))"

text \<open>
  \<^verbatim>\<open>if last_block is None or to_block_number > last_block: last_block = to_block_number\<close>
\<close>

definition raise_last_block :: "int option \<Rightarrow> int \<Rightarrow> int option" where
  "raise_last_block last_block to_block_number =
     (case last_block of
        None \<Rightarrow> Some to_block_number
      | Some l \<Rightarrow> if to_block_number > l then Some to_block_number else Some l)"

text \<open>
  \<^verbatim>\<open>start\<close>, with the loop of the second tier as a parameter, so that the program with
  and without the increment share everything else.
\<close>

definition start_with ::
  "(address set \<Rightarrow> int \<Rightarrow> indexer \<Rightarrow> world \<Rightarrow> int \<Rightarrow> int option
      \<Rightarrow> (error + int \<times> int option \<times> int) \<times> indexer \<times> world)
   \<Rightarrow> 'e finder \<Rightarrow> ('e, 'p) element_processor \<Rightarrow> indexer \<Rightarrow> world
   \<Rightarrow> (error + int \<times> int) \<times> indexer \<times> world" where
  "start_with second_loop finder pe self w =
     (let current_block_number = client_block_number self
      in case get_almost_updated_addresses self current_block_number w of
           (almost_updated_addresses, w1) \<Rightarrow>
             (case (if almost_updated_addresses \<noteq> {}
                    then (case almost_updated_loop finder pe almost_updated_addresses
                                 current_block_number self w1 0 None of
                            (Inl e, self', w') \<Rightarrow> (Inl e, self', w')
                          | (Inr (total_processed, start_block, to_block_number), self', w') \<Rightarrow>
                              (Inr (total_processed, start_block, Some to_block_number), self', w'))
                    else (Inr (0, None, None), self, w1)) of
                (Inl e, self2, w2) \<Rightarrow> (Inl e, self2, w2)
              | (Inr (total1, start_block1, last_block1), self2, w2) \<Rightarrow>
                  (case get_not_updated_addresses self2 current_block_number w2 of
                     (not_updated_addresses, w3) \<Rightarrow>
                       (case (if not_updated_addresses \<noteq> {}
                              then (case second_loop not_updated_addresses
                                           current_block_number self2 w3 total1 start_block1 of
                                      (Inl e, self', w') \<Rightarrow> (Inl e, self', w')
                                    | (Inr (total_processed, start_block, to_block_number), self', w') \<Rightarrow>
                                        (Inr (total_processed, start_block,
                                              raise_last_block last_block1 to_block_number),
                                         self', w'))
                              else (Inr (total1, start_block1, last_block1), self2, w3)) of
                          (Inl e, self4, w4) \<Rightarrow> (Inl e, self4, w4)
                        | (Inr (total_processed, start_block, last_block), self4, w4) \<Rightarrow>
                            (Inr (total_processed, number_of_blocks_processed start_block last_block),
                             self4, w4)))))"

definition start ::
  "'e finder \<Rightarrow> ('e, 'p) element_processor \<Rightarrow> indexer \<Rightarrow> world
     \<Rightarrow> (error + int \<times> int) \<times> indexer \<times> world" where
  "start finder pe self w = start_with (not_updated_loop finder pe) finder pe self w"

definition start_without_increment ::
  "'e finder \<Rightarrow> ('e, 'p) element_processor \<Rightarrow> indexer \<Rightarrow> world
     \<Rightarrow> (error + int \<times> int) \<times> indexer \<times> world" where
  "start_without_increment finder pe self w =
     start_with (not_updated_loop_without_increment finder pe) finder pe self w"

section \<open>The batches of a run\<close>

text \<open>
  The batches that a loop of \<^verbatim>\<open>start\<close> executes over a set of addresses, in order: it
  repeats \<^verbatim>\<open>process_addresses\<close> until a batch reports that there are no more blocks to
  scan, or raises. The result holds the batches, the exception if one was raised, and the
  state at the end.
\<close>

function batches ::
  "'e finder \<Rightarrow> ('e, 'p) element_processor \<Rightarrow> address set \<Rightarrow> int \<Rightarrow> indexer \<Rightarrow> world
     \<Rightarrow> 'p batch list \<times> error option \<times> indexer \<times> world" where
  "batches finder pe addresses current_block_number self w =
     (case process_addresses finder pe self addresses (Some current_block_number) w of
        (Inl e, self', w') \<Rightarrow> ([], Some e, self', w')
      | (Inr b, self', w') \<Rightarrow>
          if snd (snd (snd b)) then ([b], None, self', w')
          else (case batches finder pe addresses current_block_number self' w' of
                  (bs, rest) \<Rightarrow> (b # bs, rest)))"
  by pat_completeness auto

definition first_block :: "'p batch \<Rightarrow> int option" where
  "first_block b = fst (snd b)"

definition last_block :: "'p batch \<Rightarrow> int" where
  "last_block b = fst (snd (snd b))"

definition total_elements :: "'p batch list \<Rightarrow> int" where
  "total_elements bs = sum_list (map (\<lambda>b. int (length (fst b))) bs)"

fun min_option :: "int option \<Rightarrow> int option \<Rightarrow> int option" where
  "min_option None y = y"
| "min_option (Some x) None = Some x"
| "min_option (Some x) (Some y) = Some (min x y)"

fun max_option :: "int option \<Rightarrow> int option \<Rightarrow> int option" where
  "max_option None y = y"
| "max_option (Some x) None = Some x"
| "max_option (Some x) (Some y) = Some (max x y)"

text \<open>
  The block bounds of a tier: the first block of its first batch, the lowest first block
  of its batches, and the last block of its last batch.
\<close>

definition first_seen :: "'p batch list \<Rightarrow> int option" where
  "first_seen bs = (case bs of [] \<Rightarrow> None | b # _ \<Rightarrow> first_block b)"

definition lowest_first :: "'p batch list \<Rightarrow> int option" where
  "lowest_first bs = foldr min_option (map first_block bs) None"

definition last_seen :: "'p batch list \<Rightarrow> int option" where
  "last_seen bs = (if bs = [] then None else Some (last_block (last bs)))"

text \<open>
  The number of blocks from the lower bound of the two tiers to their upper bound, where
  the first tier contributes the first block of its first batch and the second tier the
  lowest first block of its batches; 0 when a bound is missing.
\<close>

definition blocks_spanned :: "'p batch list \<Rightarrow> 'p batch list \<Rightarrow> int" where
  "blocks_spanned bs1 bs2 =
     (case min_option (first_seen bs1) (lowest_first bs2) of
        None \<Rightarrow> 0
      | Some s \<Rightarrow>
          (case max_option (last_seen bs1) (last_seen bs2) of
             None \<Rightarrow> 0
           | Some l \<Rightarrow> l - s + 1))"

text \<open>The batches of the two tiers of one run of \<^verbatim>\<open>start\<close>.\<close>

definition tier_batches ::
  "'e finder \<Rightarrow> ('e, 'p) element_processor \<Rightarrow> indexer \<Rightarrow> world
     \<Rightarrow> 'p batch list \<times> 'p batch list" where
  "tier_batches finder pe self w =
     (let current_block_number = client_block_number self
      in case get_almost_updated_addresses self current_block_number w of
           (almost_updated_addresses, w1) \<Rightarrow>
             (case (if almost_updated_addresses \<noteq> {}
                    then batches finder pe almost_updated_addresses current_block_number
                           self w1
                    else ([], None, self, w1)) of
                (bs1, Some e, self2, w2) \<Rightarrow> (bs1, [])
              | (bs1, None, self2, w2) \<Rightarrow>
                  (case get_not_updated_addresses self2 current_block_number w2 of
                     (not_updated_addresses, w3) \<Rightarrow>
                       (bs1,
                        if not_updated_addresses \<noteq> {}
                        then fst (batches finder pe not_updated_addresses
                                    current_block_number self2 w3)
                        else []))))"

section \<open>Progress measure and example configurations\<close>

text \<open>
  The distance that the rows of \<open>addresses\<close> still have to a bound. Each batch that does
  not reach the bound lowers it, which is why the loops of \<^verbatim>\<open>start\<close> end.
\<close>

definition remaining :: "address set \<Rightarrow> int \<Rightarrow> row list \<Rightarrow> nat" where
  "remaining addresses bound rs =
     sum_list (map (\<lambda>r. if fst r \<in> addresses then nat (bound - snd r) else 0) rs)"

text \<open>
  An indexer with 10 confirmations and a block limit of 5, at chain head 12, and a table
  with one address at watermark 0.
\<close>

definition scenario_indexer :: indexer where
  "scenario_indexer =
     \<lparr>client_block_number = 12, confirmations = 10, initial_block_process_limit = 5,
      block_process_limit = 5, block_process_limit_max = 0, blocks_to_reindex_again = 0,
      updated_blocks_behind = 20, query_chunk_size = Some 1000,
      block_auto_process_limit = True\<rparr>"

definition scenario_world :: world where
  "scenario_world = \<lparr>rows = [(''0xA'', 0)], trace = []\<rparr>"

text \<open>
  An indexer without confirmations, with a block limit of 100 and a reindex margin of 30,
  at chain head 50, and a table with one address at watermark 40.
\<close>

definition tip_indexer :: indexer where
  "tip_indexer =
     \<lparr>client_block_number = 50, confirmations = 0, initial_block_process_limit = 100,
      block_process_limit = 100, block_process_limit_max = 0, blocks_to_reindex_again = 30,
      updated_blocks_behind = 20, query_chunk_size = Some 1000,
      block_auto_process_limit = True\<rparr>"

definition tip_world :: world where
  "tip_world = \<lparr>rows = [(''0xA'', 40)], trace = []\<rparr>"

text \<open>An indexer with a block limit of 50 and a maximum of 60.\<close>

definition capped_indexer :: indexer where
  "capped_indexer =
     \<lparr>client_block_number = 1000, confirmations = 0, initial_block_process_limit = 50,
      block_process_limit = 50, block_process_limit_max = 60, blocks_to_reindex_again = 0,
      updated_blocks_behind = 20, query_chunk_size = Some 1000,
      block_auto_process_limit = True\<rparr>"

text \<open>
  An indexer whose block limit is 0, at chain head 10, and a table with one address at
  watermark 5.
\<close>

definition zero_limit_indexer :: indexer where
  "zero_limit_indexer =
     \<lparr>client_block_number = 10, confirmations = 0, initial_block_process_limit = 0,
      block_process_limit = 0, block_process_limit_max = 0, blocks_to_reindex_again = 0,
      updated_blocks_behind = 20, query_chunk_size = Some 1000,
      block_auto_process_limit = True\<rparr>"

definition zero_limit_world :: world where
  "zero_limit_world = \<lparr>rows = [(''0xA'', 5)], trace = []\<rparr>"

text \<open>The bounds on the block limit: at least 1, and at most the maximum when one is set.\<close>

definition within_bounds :: "indexer \<Rightarrow> bool" where
  "within_bounds self =
     (1 \<le> block_process_limit self
      \<and> (0 < block_process_limit_max self
           \<longrightarrow> block_process_limit self \<le> block_process_limit_max self))"

text \<open>A wrapped block that returns normally after \<open>delta\<close> seconds and leaves \<^verbatim>\<open>self\<close> as it is.\<close>

definition took :: "int \<Rightarrow> indexer \<Rightarrow> (error + unit) \<times> indexer \<times> int" where
  "took delta self = (Inr (), self, delta)"

text \<open>
  Implementations of \<^verbatim>\<open>find_relevant_elements\<close> for the examples: one that raises
  \<^verbatim>\<open>Timeout\<close>, one that finds nothing. Both leave the block limit as it is.
  \<open>keep_element\<close> is a \<^verbatim>\<open>process_element\<close> that returns the element itself.
\<close>

definition timeout_finder :: "nat finder" where
  "timeout_finder self addresses from_block_number to_block_number current =
     (Inl Timeout, block_process_limit self)"

definition quiet_finder :: "nat finder" where
  "quiet_finder self addresses from_block_number to_block_number current =
     (Inr [], block_process_limit self)"

definition keep_element :: "(nat, nat) element_processor" where
  "keep_element element = Inr [element]"

text \<open>
  An indexer without confirmations and with a block limit of 10, at chain head 100, and a
  table with two addresses at watermarks 0 and 50.
\<close>

definition two_indexer :: indexer where
  "two_indexer =
     \<lparr>client_block_number = 100, confirmations = 0, initial_block_process_limit = 10,
      block_process_limit = 10, block_process_limit_max = 0, blocks_to_reindex_again = 0,
      updated_blocks_behind = 20, query_chunk_size = Some 1000,
      block_auto_process_limit = True\<rparr>"

definition two_world :: world where
  "two_world = \<lparr>rows = [(''0xA'', 0), (''0xB'', 50)], trace = []\<rparr>"

text \<open>A table whose only address is at watermark 5, within 10 blocks of chain head 12.\<close>

definition synced_world :: world where
  "synced_world = \<lparr>rows = [(''0xA'', 5)], trace = []\<rparr>"

text \<open>
  A finder that wraps its fetch in \<^verbatim>\<open>auto_adjust_block_limit\<close>, returns within a second
  and finds one element per batch. An indexer with a block limit of 2 and a reindex margin
  of 3, at chain head 102, and a table with one address at watermark 100.
\<close>

definition fast_finder :: "nat finder" where
  "fast_finder self addresses from_block_number to_block_number current =
     (Inr [nat to_block_number],
      block_process_limit
        (snd (auto_adjust_block_limit self from_block_number to_block_number (took 0))))"

definition growth_indexer :: indexer where
  "growth_indexer =
     \<lparr>client_block_number = 102, confirmations = 0, initial_block_process_limit = 2,
      block_process_limit = 2, block_process_limit_max = 0, blocks_to_reindex_again = 3,
      updated_blocks_behind = 20, query_chunk_size = Some 1000,
      block_auto_process_limit = True\<rparr>"

definition growth_world :: world where
  "growth_world = \<lparr>rows = [(''0xA'', 100)], trace = []\<rparr>"

section \<open>Facts about the range calculation\<close>

lemma current_or_client_idem:
  "current_or_client self (Some (current_or_client self c)) = current_or_client self c"
  by (simp add: current_or_client_def split: option.splits)

lemma current_or_client_limit [simp]:
  "current_or_client (self\<lparr>block_process_limit := l\<rparr>) c = current_or_client self c"
  by (simp add: current_or_client_def split: option.splits)

lemma client_or_client [simp]:
  "current_or_client self (Some (client_block_number self)) = client_block_number self"
  by (simp add: current_or_client_def)

lemma aggregate_min_eq:
  "aggregate_min xs = (if xs = [] then None else Some (Min (set xs)))"
proof (cases xs)
  case Nil
  then show ?thesis by simp
next
  case (Cons a list)
  then show ?thesis using Min.set_eq_fold [of a list] by simp
qed

lemma get_from_block_number_world:
  "snd (get_from_block_number self a w) = emit (Db_Aggregate_Min a) w"
  by (simp add: get_from_block_number_def Let_def)

lemma search_result:
  "get_block_numbers_for_search self addresses c w =
     (case fst (get_from_block_number self (Some addresses) w) of
        None \<Rightarrow> None
      | Some m \<Rightarrow>
          if current_or_client self c - m < confirmations self then None
          else Some (if m + block_process_limit self > current_or_client self c - confirmations self
                     then max (m - min (block_process_limit self
                                          - (get_to_block_number self m (current_or_client self c) - m + 1))
                                       (blocks_to_reindex_again self)) 0
                     else m,
                     get_to_block_number self m (current_or_client self c)),
      emit (Db_Aggregate_Min (Some addresses)) w)"
  by (simp add: get_block_numbers_for_search_def Let_def get_from_block_number_def
           split: prod.splits option.splits)

lemma search_to_le:
  "fst (get_block_numbers_for_search self a c w) = Some (f, t) \<Longrightarrow>
     t \<le> current_or_client self c - confirmations self"
  by (auto simp add: search_result get_to_block_number_def split: option.splits if_splits)

lemma no_range_iff:
  assumes "a \<noteq> {}"
  shows "fst (get_block_numbers_for_search self a c w) = None \<longleftrightarrow>
           address_in a (rows w) = []
           \<or> current_or_client self c - Min (set (map snd (address_in a (rows w))))
                < confirmations self"
  using assms
  by (auto simp add: search_result get_from_block_number_def aggregate_min_eq Let_def
        split: option.splits if_splits)

lemma range_ordered:
  assumes "fst (get_block_numbers_for_search self addresses c w) = Some (f, t)"
    and "1 \<le> block_process_limit self" and "0 \<le> blocks_to_reindex_again self"
    and "fst (get_from_block_number self (Some addresses) w) = Some m" and "0 \<le> m"
  shows "f \<le> t"
  using assms by (auto simp add: search_result get_to_block_number_def split: if_splits)

section \<open>Facts about one batch\<close>

lemma find_and_process_self:
  "find_and_process finder pe self a f t c = (r, self') \<Longrightarrow>
     self' = self\<lparr>block_process_limit := block_process_limit self'\<rparr>"
  by (auto simp add: find_and_process_def split: prod.splits sum.splits)

lemma find_and_process_reset:
  "find_and_process finder pe self a f t c = (r, self') \<Longrightarrow>
     self'\<lparr>block_process_limit := k\<rparr> = self\<lparr>block_process_limit := k\<rparr>"
  by (auto simp add: find_and_process_def split: prod.splits sum.splits)

lemma process_addresses_unfold:
  "process_addresses finder pe self a c w =
     (if a = {} then (Inl AssertionError, self, w)
      else case fst (get_block_numbers_for_search self a c w) of
        None \<Rightarrow> (Inr ([], None, current_or_client self c, True), self,
                  emit (Db_Aggregate_Min (Some a)) w)
      | Some (f, t) \<Rightarrow>
          (case find_and_process finder pe self a f t (current_or_client self c) of
             (Inl e, self1) \<Rightarrow>
               (Inl e, if caught e then self1\<lparr>block_process_limit := 1\<rparr> else self1,
                emit (Find_Call a f t (current_or_client self c))
                  (emit (Db_Aggregate_Min (Some a)) w))
           | (Inr ps, self1) \<Rightarrow>
               (if filter (selected a f (t + 1)) (rows w) = [] then Inl ValueError
                else Inr (ps, Some f, t, t = current_or_client self c - confirmations self),
                self1,
                emit (Db_Update a f (t + 1) (t + 1))
                  (emit (Find_Call a f t (current_or_client self c))
                     (emit (Db_Aggregate_Min (Some a)) w)
                   \<lparr>rows := update_rows a f (t + 1) (rows w)\<rparr>))))"
  by (simp add: process_addresses_def Let_def search_result current_or_client_idem
        update_monitored_addresses_def emit_def
      split: option.splits prod.splits sum.splits)

lemma process_addresses_Inr:
  assumes "process_addresses finder pe self a c w = (Inr (ps, fb, t, u), self', w')"
  shows "a \<noteq> {}"
    and "fb = None \<Longrightarrow> u"
    and "self' = self\<lparr>block_process_limit := block_process_limit self'\<rparr>"
    and "\<And>f. fb = Some f \<Longrightarrow>
           fst (get_block_numbers_for_search self a c w) = Some (f, t)
           \<and> u = (t = current_or_client self c - confirmations self)
           \<and> rows w' = update_rows a f (t + 1) (rows w)
           \<and> filter (selected a f (t + 1)) (rows w) \<noteq> []"
    and "fb = None \<Longrightarrow> fst (get_block_numbers_for_search self a c w) = None"
proof -
  show "a \<noteq> {}"
    using assms by (auto simp add: process_addresses_unfold)
  show "fb = None \<Longrightarrow> u"
    using assms
    by (auto simp add: process_addresses_unfold emit_def
          split: if_splits option.splits prod.splits sum.splits)
  show "self' = self\<lparr>block_process_limit := block_process_limit self'\<rparr>"
    using assms
    by (auto simp add: process_addresses_unfold
          split: if_splits option.splits prod.splits sum.splits dest: find_and_process_self)
  show "fb = None \<Longrightarrow> fst (get_block_numbers_for_search self a c w) = None"
    using assms
    by (auto simp add: process_addresses_unfold emit_def
          split: if_splits option.splits prod.splits sum.splits)
  show "\<And>f. fb = Some f \<Longrightarrow>
           fst (get_block_numbers_for_search self a c w) = Some (f, t)
           \<and> u = (t = current_or_client self c - confirmations self)
           \<and> rows w' = update_rows a f (t + 1) (rows w)
           \<and> filter (selected a f (t + 1)) (rows w) \<noteq> []"
    using assms
    by (auto simp add: process_addresses_unfold emit_def
          split: if_splits option.splits prod.splits sum.splits)
qed

lemma process_addresses_self:
  assumes "process_addresses finder pe self a c w = (res, self', w')"
  shows "self' = self\<lparr>block_process_limit := block_process_limit self'\<rparr>"
  using assms
  by (auto simp add: process_addresses_unfold
        split: if_splits option.splits prod.splits sum.splits
        dest: find_and_process_self find_and_process_reset)

lemma uncaught_exception_keeps_limit:
  assumes "a \<noteq> {}"
    and "fst (get_block_numbers_for_search self a c w) = Some (f, t)"
    and "find_and_process finder pe self a f t (current_or_client self c) = (Inl e, self1)"
    and "\<not> caught e"
  shows "process_addresses finder pe self a c w =
           (Inl e, self1,
            w\<lparr>trace := trace w @ [Db_Aggregate_Min (Some a),
                                   Find_Call a f t (current_or_client self c)]\<rparr>)"
  using assms by (simp add: process_addresses_unfold emit_def)

lemma default_process_element_raises:
  "process_elements process_element (x # xs) = Inl NotImplementedError"
  by (simp add: process_element_def)

section \<open>Termination of the loops\<close>

lemma remaining_Cons:
  "remaining a bound (r # rs) =
     (if fst r \<in> a then nat (bound - snd r) else 0) + remaining a bound rs"
  by (simp add: remaining_def)

lemma update_rows_Cons:
  "update_rows a f n (r # rs) =
     (if selected a f n r then (fst r, n) else r) # update_rows a f n rs"
  by (simp add: update_rows_def)

lemma remaining_update_le:
  "n \<le> bound \<Longrightarrow> remaining a bound (update_rows a f n rs) \<le> remaining a bound rs"
proof (induction rs)
  case Nil
  then show ?case by (simp add: update_rows_def)
next
  case (Cons r rs)
  then show ?case
    by (auto simp add: remaining_Cons update_rows_Cons selected_def)
qed

lemma remaining_update_less:
  "n \<le> bound \<Longrightarrow> filter (selected a f n) rs \<noteq> [] \<Longrightarrow>
     remaining a bound (update_rows a f n rs) < remaining a bound rs"
proof (induction rs)
  case Nil
  then show ?case by simp
next
  case (Cons r rs)
  show ?case
  proof (cases "selected a f n r")
    case True
    have le: "remaining a bound (update_rows a f n rs) \<le> remaining a bound rs"
      using Cons.prems(1) by (rule remaining_update_le)
    have "fst r \<in> a" and "snd r < n"
      using True by (simp_all add: selected_def)
    then have lt: "nat (bound - n) < nat (bound - snd r)"
      using Cons.prems(1) by linarith
    have new: "remaining a bound (update_rows a f n (r # rs)) =
                 nat (bound - n) + remaining a bound (update_rows a f n rs)"
      using True \<open>fst r \<in> a\<close> by (simp add: remaining_Cons update_rows_Cons)
    have old: "remaining a bound (r # rs) = nat (bound - snd r) + remaining a bound rs"
      using \<open>fst r \<in> a\<close> by (simp add: remaining_Cons)
    show ?thesis
      using le lt new old by linarith
  next
    case False
    then have "remaining a bound (update_rows a f n rs) < remaining a bound rs"
      using Cons by simp
    with False show ?thesis
      by (simp add: remaining_Cons update_rows_Cons)
  qed
qed

lemma process_addresses_decreases:
  assumes "process_addresses finder pe self a c w = (Inr (ps, fb, t, False), self', w')"
  shows "remaining a (current_or_client self' c - confirmations self') (rows w')
           < remaining a (current_or_client self c - confirmations self) (rows w)"
proof -
  obtain f where fb: "fb = Some f"
    using process_addresses_Inr(2) [OF assms] by (cases fb) auto
  have self': "self' = self\<lparr>block_process_limit := block_process_limit self'\<rparr>"
    using process_addresses_Inr(3) [OF assms] .
  note facts = process_addresses_Inr(4) [OF assms fb]
  have "t \<le> current_or_client self c - confirmations self"
    using facts by (auto dest: search_to_le)
  moreover have "t \<noteq> current_or_client self c - confirmations self"
    using facts by simp
  ultimately have "t + 1 \<le> current_or_client self c - confirmations self"
    by linarith
  then have "remaining a (current_or_client self c - confirmations self)
               (update_rows a f (t + 1) (rows w))
             < remaining a (current_or_client self c - confirmations self) (rows w)"
    using facts by (intro remaining_update_less) auto
  moreover have "current_or_client self' c = current_or_client self c"
    by (subst self') simp
  moreover have "confirmations self' = confirmations self"
    by (subst self') simp
  ultimately show ?thesis
    using facts by simp
qed

termination almost_updated_loop
  by (relation "measure (\<lambda>(finder, pe, a, cur, self, w, total_processed, start_block).
         remaining a (current_or_client self (Some cur) - confirmations self) (rows w))")
     (auto dest: process_addresses_decreases [OF sym])

termination not_updated_loop
  by (relation "measure (\<lambda>(finder, pe, a, cur, self, w, total_processed, start_block).
         remaining a (current_or_client self (Some cur) - confirmations self) (rows w))")
     (auto dest: process_addresses_decreases [OF sym])

termination not_updated_loop_without_increment
  by (relation "measure (\<lambda>(finder, pe, a, cur, self, w, total_processed, start_block).
         remaining a (current_or_client self (Some cur) - confirmations self) (rows w))")
     (auto dest: process_addresses_decreases [OF sym])

termination batches
  by (relation "measure (\<lambda>(finder, pe, a, cur, self, w).
         remaining a (current_or_client self (Some cur) - confirmations self) (rows w))")
     (auto dest: process_addresses_decreases [OF sym])

declare almost_updated_loop.simps [simp del]

declare not_updated_loop.simps [simp del]

declare not_updated_loop_without_increment.simps [simp del]

declare batches.simps [simp del]

section \<open>Facts about the loops\<close>

lemma loops_abort:
  assumes "process_addresses finder pe self a (Some cur) w = (Inl e, self', w')"
  shows "almost_updated_loop finder pe a cur self w n sb = (Inl e, self', w')"
    and "not_updated_loop finder pe a cur self w n sb = (Inl e, self', w')"
    and "not_updated_loop_without_increment finder pe a cur self w n sb = (Inl e, self', w')"
  using assms
  by (simp_all add: almost_updated_loop.simps [of finder pe a cur self w n sb]
        not_updated_loop.simps [of finder pe a cur self w n sb]
        not_updated_loop_without_increment.simps [of finder pe a cur self w n sb])

lemma start_aborts_in_first_tier:
  assumes "get_almost_updated_addresses self (client_block_number self) w = (a, w1)"
    and "a \<noteq> {}"
    and "almost_updated_loop finder pe a (client_block_number self) self w1 0 None
           = (Inl e, self', w')"
  shows "start finder pe self w = (Inl e, self', w')"
  using assms by (simp add: start_def start_with_def)

lemma start_aborts_in_second_tier:
  assumes "get_almost_updated_addresses self (client_block_number self) w = ({}, w1)"
    and "get_not_updated_addresses self (client_block_number self) w1 = (a, w2)"
    and "a \<noteq> {}"
    and "not_updated_loop finder pe a (client_block_number self) self w2 0 None
           = (Inl e, self', w')"
  shows "start finder pe self w = (Inl e, self', w')"
  using assms by (simp add: start_def start_with_def)

lemma almost_updated_loop_self:
  assumes "almost_updated_loop finder pe a cur self w n sb = (res, self', w')"
  shows "self' = self\<lparr>block_process_limit := block_process_limit self'\<rparr>"
  using assms
proof (induction finder pe a cur self w n sb rule: almost_updated_loop.induct)
  case (1 finder pe a cur self w n sb)
  obtain r self1 w1 where step:
    "process_addresses finder pe self a (Some cur) w = (r, self1, w1)"
    by (cases "process_addresses finder pe self a (Some cur) w") auto
  have self1: "self1 = self\<lparr>block_process_limit := block_process_limit self1\<rparr>"
    using step by (rule process_addresses_self)
  show ?case
  proof (cases r)
    case (Inl e)
    then have "self' = self1"
      using step "1.prems" by (simp add: loops_abort)
    with self1 show ?thesis
      by simp
  next
    case (Inr b)
    obtain ps fb t u where b: "b = (ps, fb, t, u)"
      by (cases b) auto
    have step': "process_addresses finder pe self a (Some cur) w
                   = (Inr (ps, fb, t, u), self1, w1)"
      using step Inr b by simp
    show ?thesis
    proof (cases u)
      case True
      then have "self' = self1"
        using step' "1.prems"
        by (simp add: almost_updated_loop.simps [of finder pe a cur self w n sb])
      with self1 show ?thesis
        by simp
    next
      case False
      have "almost_updated_loop finder pe a cur self1 w1 (n + int (length ps))
              (if sb = None then fb else sb) = (res, self', w')"
        using step' False "1.prems"
        by (simp add: almost_updated_loop.simps [of finder pe a cur self w n sb])
      then have "self' = self1\<lparr>block_process_limit := block_process_limit self'\<rparr>"
        using "1.IH" [OF step' [symmetric] refl refl refl refl refl refl refl False] by simp
      then show ?thesis
        by (subst (asm) self1) simp
    qed
  qed
qed

lemma batches_nonempty:
  assumes "batches finder pe a cur self w = (bs, None, self', w')"
  shows "bs \<noteq> []"
  using assms
  by (subst (asm) batches.simps) (auto split: prod.splits sum.splits if_splits)

lemma total_elements_Cons:
  "total_elements (b # bs) = int (length (fst b)) + total_elements bs"
  by (simp add: total_elements_def)

lemma total_elements_append:
  "total_elements (bs1 @ bs2) = total_elements bs1 + total_elements bs2"
  by (simp add: total_elements_def)

lemma min_option_None [simp]: "min_option x None = x"
  by (cases x) simp_all

lemma max_option_None [simp]: "max_option x None = x"
  by (cases x) simp_all

lemma min_option_assoc:
  "min_option (min_option x y) z = min_option x (min_option y z)"
  by (cases x; cases y; cases z) (simp_all add: min.assoc)

lemma lower_start_block_Some:
  "lower_start_block sb (Some f) = Inr (min_option sb (Some f))"
  by (cases sb) (simp_all add: lower_start_block_def min_def)

lemma lowest_first_Cons:
  "lowest_first (b # bs) = min_option (first_block b) (lowest_first bs)"
  by (simp add: lowest_first_def)

lemma raise_last_block_max:
  "raise_last_block l t = max_option l (Some t)"
  by (cases l) (simp_all add: raise_last_block_def max_def)

lemma number_of_blocks_processed_spanned:
  "number_of_blocks_processed (min_option (first_seen bs1) (lowest_first bs2))
     (max_option (last_seen bs1) (last_seen bs2)) = blocks_spanned bs1 bs2"
  by (simp add: number_of_blocks_processed_def blocks_spanned_def)

lemma almost_updated_loop_batches:
  "almost_updated_loop finder pe a cur self w n sb =
     (case batches finder pe a cur self w of
        (bs, Some e, self', w') \<Rightarrow> (Inl e, self', w')
      | (bs, None, self', w') \<Rightarrow>
          (Inr (n + total_elements bs, if sb = None then first_seen bs else sb,
                last_block (last bs)), self', w'))"
proof (induction finder pe a cur self w n sb rule: almost_updated_loop.induct)
  case (1 finder pe a cur self w n sb)
  obtain r self1 w1 where step:
    "process_addresses finder pe self a (Some cur) w = (r, self1, w1)"
    by (cases "process_addresses finder pe self a (Some cur) w") auto
  show ?case
  proof (cases r)
    case (Inl e)
    then show ?thesis
      using step
      by (simp add: loops_abort batches.simps [of finder pe a cur self w])
  next
    case (Inr b)
    obtain ps fb t u where b: "b = (ps, fb, t, u)"
      by (cases b) auto
    have step': "process_addresses finder pe self a (Some cur) w
                   = (Inr (ps, fb, t, u), self1, w1)"
      using step Inr b by simp
    show ?thesis
    proof (cases u)
      case True
      then show ?thesis
        using step'
        by (simp add: almost_updated_loop.simps [of finder pe a cur self w n sb]
              batches.simps [of finder pe a cur self w]
              total_elements_def first_seen_def first_block_def last_block_def)
    next
      case False
      note IH = "1.IH" [OF step' [symmetric] refl refl refl refl refl refl refl False]
      have fb: "fb \<noteq> None"
        using process_addresses_Inr(2) [OF step'] False by auto
      obtain bs e self2 w2 where rest:
        "batches finder pe a cur self1 w1 = (bs, e, self2, w2)"
        by (cases "batches finder pe a cur self1 w1") auto
      have whole: "batches finder pe a cur self w = ((ps, fb, t, u) # bs, e, self2, w2)"
        using step' False rest by (simp add: batches.simps [of finder pe a cur self w])
      have loop: "almost_updated_loop finder pe a cur self w n sb =
                    almost_updated_loop finder pe a cur self1 w1 (n + int (length ps))
                      (if sb = None then fb else sb)"
        using step' False
        by (simp add: almost_updated_loop.simps [of finder pe a cur self w n sb])
      show ?thesis
      proof (cases e)
        case None
        then have "bs \<noteq> []"
          using rest by (auto dest: batches_nonempty)
        then show ?thesis
          using None fb
          by (auto simp add: loop IH rest whole total_elements_Cons first_seen_def
                first_block_def)
      next
        case (Some err)
        then show ?thesis
          by (simp add: loop IH rest whole)
      qed
    qed
  qed
qed

lemma not_updated_loop_batches:
  assumes "not_updated_loop finder pe a cur self w n sb = (Inr (n', sb', t'), self', w')"
  shows "\<exists>bs. batches finder pe a cur self w = (bs, None, self', w')
           \<and> bs \<noteq> []
           \<and> n' = n + total_elements bs
           \<and> sb' = min_option sb (lowest_first bs)
           \<and> t' = last_block (last bs)"
  using assms
proof (induction finder pe a cur self w n sb rule: not_updated_loop.induct)
  case (1 finder pe a cur self w n sb)
  obtain r self1 w1 where step:
    "process_addresses finder pe self a (Some cur) w = (r, self1, w1)"
    by (cases "process_addresses finder pe self a (Some cur) w") auto
  show ?case
  proof (cases r)
    case (Inl e)
    then show ?thesis
      using step "1.prems" by (simp add: loops_abort)
  next
    case (Inr b)
    obtain ps fb t u where b: "b = (ps, fb, t, u)"
      by (cases b) auto
    have step': "process_addresses finder pe self a (Some cur) w
                   = (Inr (ps, fb, t, u), self1, w1)"
      using step Inr b by simp
    have "fb \<noteq> None"
      using step' "1.prems"
      by (auto simp add: not_updated_loop.simps [of finder pe a cur self w n sb] Let_def
            split: sum.splits option.splits)
    then obtain f where fb: "fb = Some f"
      by auto
    note lower = lower_start_block_Some [of sb f]
    show ?thesis
    proof (cases u)
      case True
      then show ?thesis
        using step' fb lower "1.prems"
        by (simp add: not_updated_loop.simps [of finder pe a cur self w n sb]
              batches.simps [of finder pe a cur self w]
              total_elements_def lowest_first_def first_block_def last_block_def)
    next
      case False
      have rec: "not_updated_loop finder pe a cur self1 w1 (n + int (length ps))
                   (min_option sb (Some f)) = (Inr (n', sb', t'), self', w')"
        using step' fb lower False "1.prems"
        by (simp add: not_updated_loop.simps [of finder pe a cur self w n sb])
      have lower': "lower_start_block sb fb = Inr (min_option sb (Some f))"
        using lower fb by simp
      from "1.IH" [OF step' [symmetric] refl refl refl refl refl lower' refl fb False rec]
      obtain bs where bs: "batches finder pe a cur self1 w1 = (bs, None, self', w')"
        "bs \<noteq> []" "n' = n + int (length ps) + total_elements bs"
        "sb' = min_option (min_option sb (Some f)) (lowest_first bs)"
        "t' = last_block (last bs)"
        by auto
      have whole: "batches finder pe a cur self w = ((ps, fb, t, u) # bs, None, self', w')"
        using step' False bs(1) by (simp add: batches.simps [of finder pe a cur self w])
      show ?thesis
        using whole bs fb
        by (intro exI [of _ "(ps, fb, t, u) # bs"])
           (simp add: total_elements_Cons lowest_first_Cons first_block_def min_option_assoc)
    qed
  qed
qed

lemma search_finds_pending:
  assumes "a \<noteq> {}"
    and "r \<in> set (rows w)" and "fst r \<in> a"
    and "snd r \<le> current_or_client self c - confirmations self"
  shows "fst (get_block_numbers_for_search self a c w) \<noteq> None"
proof -
  have mem: "r \<in> set (address_in a (rows w))"
    using assms(2,3) by (simp add: address_in_def)
  then have ne: "address_in a (rows w) \<noteq> []"
    by auto
  have "Min (set (map snd (address_in a (rows w)))) \<le> snd r"
    using mem by (intro Min_le) auto
  then have "\<not> current_or_client self c - Min (set (map snd (address_in a (rows w))))
               < confirmations self"
    using assms(4) by linarith
  then show ?thesis
    using ne no_range_iff [OF assms(1)] by blast
qed

lemma step_keeps_pending:
  assumes "process_addresses finder pe self a c w = (Inr (ps, fb, t, False), self', w')"
  shows "\<exists>r \<in> set (rows w'). fst r \<in> a
           \<and> snd r \<le> current_or_client self' c - confirmations self'"
proof -
  obtain f where fb: "fb = Some f"
    using process_addresses_Inr(2) [OF assms] by (cases fb) auto
  have self': "self' = self\<lparr>block_process_limit := block_process_limit self'\<rparr>"
    using process_addresses_Inr(3) [OF assms] .
  note facts = process_addresses_Inr(4) [OF assms fb]
  have "t \<le> current_or_client self c - confirmations self"
    using facts by (auto dest: search_to_le)
  moreover have "t \<noteq> current_or_client self c - confirmations self"
    using facts by simp
  ultimately have bound: "t + 1 \<le> current_or_client self c - confirmations self"
    by linarith
  obtain r where r: "r \<in> set (rows w)" "selected a f (t + 1) r"
    using facts by (auto simp add: filter_empty_conv)
  have mem: "(fst r, t + 1) \<in> set (rows w')"
    using facts r by (force simp add: update_rows_def)
  have addr: "fst r \<in> a"
    using r by (simp add: selected_def)
  have cur: "current_or_client self' c = current_or_client self c"
    by (subst self') simp
  have conf: "confirmations self' = confirmations self"
    by (subst self') simp
  show ?thesis
    by (rule bexI [OF _ mem]) (simp add: addr cur conf bound)
qed

lemma loops_agree:
  assumes "\<exists>r \<in> set (rows w). fst r \<in> a
             \<and> snd r \<le> current_or_client self (Some cur) - confirmations self"
  shows "not_updated_loop_without_increment finder pe a cur self w n sb
           = not_updated_loop finder pe a cur self w n sb"
  using assms
proof (induction finder pe a cur self w n sb rule: not_updated_loop.induct)
  case (1 finder pe a cur self w n sb)
  obtain res self' w' where step:
    "process_addresses finder pe self a (Some cur) w = (res, self', w')"
    by (cases "process_addresses finder pe self a (Some cur) w") auto
  show ?case
  proof (cases res)
    case (Inl e)
    with step show ?thesis
      by (simp add: loops_abort)
  next
    case (Inr b)
    obtain ps fb t u where b: "b = (ps, fb, t, u)"
      by (cases b) auto
    have step': "process_addresses finder pe self a (Some cur) w
                   = (Inr (ps, fb, t, u), self', w')"
      using step Inr b by simp
    have "a \<noteq> {}"
      using process_addresses_Inr(1) [OF step'] .
    moreover obtain r where "r \<in> set (rows w)" and "fst r \<in> a"
      and "snd r \<le> current_or_client self (Some cur) - confirmations self"
      using "1.prems" by blast
    ultimately have "fst (get_block_numbers_for_search self a (Some cur) w) \<noteq> None"
      by (rule search_finds_pending)
    then obtain f where fb: "fb = Some f"
      using process_addresses_Inr(5) [OF step'] by (cases fb) auto
    show ?thesis
    proof (cases "lower_start_block sb fb")
      case (Inl e)
      then show ?thesis
        using step' 
        by (simp add: not_updated_loop.simps [of finder pe a cur self w n sb]
              not_updated_loop_without_increment.simps [of finder pe a cur self w n sb])
    next
      case (Inr sb')
      show ?thesis
      proof (cases u)
        case True
        then show ?thesis
          using step' Inr fb
          by (simp add: not_updated_loop.simps [of finder pe a cur self w n sb]
                not_updated_loop_without_increment.simps [of finder pe a cur self w n sb])
      next
        case False
        have pending: "\<exists>r \<in> set (rows w'). fst r \<in> a
           \<and> snd r \<le> current_or_client self' (Some cur) - confirmations self'"
          using step' False by (auto intro: step_keeps_pending)
        have "not_updated_loop_without_increment finder pe a cur self' w'
                (n + int (length ps)) sb'
              = not_updated_loop finder pe a cur self' w' (n + int (length ps)) sb'"
          using "1.IH" [OF step' [symmetric] refl refl refl refl refl Inr refl fb False pending] .
        then show ?thesis
          using step' Inr fb False
          by (simp add: not_updated_loop.simps [of finder pe a cur self w n sb]
                not_updated_loop_without_increment.simps [of finder pe a cur self w n sb])
      qed
    qed
  qed
qed

lemma second_tier_agree:
  assumes "get_not_updated_addresses self2 cur w2 = (a, w3)" and "a \<noteq> {}"
    and "current_or_client self2 (Some cur) = cur"
  shows "not_updated_loop_without_increment finder pe a cur self2 w3 n sb
           = not_updated_loop finder pe a cur self2 w3 n sb"
proof -
  have a: "a = set (map fst (filter (\<lambda>r. snd r \<le> cur - confirmations self2) (rows w2)))"
    and w3: "rows w3 = rows w2"
    using assms(1) by (auto simp add: get_not_updated_addresses_def emit_def)
  obtain r where "r \<in> set (rows w2)" and "snd r \<le> cur - confirmations self2"
    using assms(2) a by auto
  then have "\<exists>r \<in> set (rows w3). fst r \<in> a
               \<and> snd r \<le> current_or_client self2 (Some cur) - confirmations self2"
    using a w3 assms(3) by (intro bexI [of _ r]) auto
  then show ?thesis
    by (rule loops_agree)
qed

section \<open>The examples, evaluated\<close>

lemma scenario_range:
  "fst (get_block_numbers_for_search scenario_indexer {''0xA''} (Some 12) scenario_world)
     = Some (0, 2)"
  by (simp add: search_result get_from_block_number_def scenario_world_def address_in_def
        scenario_indexer_def current_or_client_def get_to_block_number_def)

lemma scenario_current: "current_or_client scenario_indexer (Some 12) = 12"
  by (simp add: current_or_client_def)

lemma two_range:
  "fst (get_block_numbers_for_search two_indexer {''0xA'', ''0xB''} (Some 100) two_world)
     = Some (0, 9)"
  by (simp add: search_result get_from_block_number_def two_world_def address_in_def
        two_indexer_def current_or_client_def get_to_block_number_def)

lemma two_current: "current_or_client two_indexer (Some 100) = 100"
  by (simp add: current_or_client_def)

lemma zero_limit_search:
  "fst (get_block_numbers_for_search zero_limit_indexer {''0xA''} (Some 10) zero_limit_world)
     = Some (5, 4)"
  by (simp add: search_result get_from_block_number_def zero_limit_world_def address_in_def
        zero_limit_indexer_def current_or_client_def get_to_block_number_def)

lemma zero_limit_current: "current_or_client zero_limit_indexer (Some 10) = 10"
  by (simp add: current_or_client_def)

lemmas eval_defs =
  get_almost_updated_addresses_def get_not_updated_addresses_def get_from_block_number_def
  process_addresses_unfold search_result get_to_block_number_def current_or_client_def
  find_and_process_def address_in_def selected_def update_rows_def emit_def
  auto_adjust_block_limit_def adjust_block_limit_def took_def Let_def

lemma growth_tier1:
  "get_almost_updated_addresses growth_indexer 102 growth_world =
     ({''0xA''}, \<lparr>rows = [(''0xA'', 100)],
                  trace = [Db_Aggregate_Min None, Db_Filter_Lt_Gte 102 100]\<rparr>)"
  by (auto simp add: eval_defs growth_indexer_def growth_world_def)

lemma growth_step1:
  "process_addresses fast_finder keep_element growth_indexer {''0xA''} (Some 102)
     \<lparr>rows = [(''0xA'', 100)], trace = tr\<rparr> =
     (Inr ([101], Some 100, 101, False), growth_indexer\<lparr>block_process_limit := 4\<rparr>,
      \<lparr>rows = [(''0xA'', 102)],
       trace = tr @ [Db_Aggregate_Min (Some {''0xA''}), Find_Call {''0xA''} 100 101 102,
                     Db_Update {''0xA''} 100 102 102]\<rparr>)"
  by (simp add: eval_defs growth_indexer_def fast_finder_def keep_element_def)

lemma growth_step2:
  "process_addresses fast_finder keep_element (growth_indexer\<lparr>block_process_limit := 4\<rparr>)
     {''0xA''} (Some 102) \<lparr>rows = [(''0xA'', 102)], trace = tr\<rparr> =
     (Inr ([102], Some 99, 102, True), growth_indexer\<lparr>block_process_limit := 8\<rparr>,
      \<lparr>rows = [(''0xA'', 103)],
       trace = tr @ [Db_Aggregate_Min (Some {''0xA''}), Find_Call {''0xA''} 99 102 102,
                     Db_Update {''0xA''} 99 103 103]\<rparr>)"
  by (simp add: eval_defs growth_indexer_def fast_finder_def keep_element_def)

lemma growth_batches:
  "batches fast_finder keep_element {''0xA''} 102 growth_indexer
     \<lparr>rows = [(''0xA'', 100)], trace = tr\<rparr> =
     ([([101], Some 100, 101, False), ([102], Some 99, 102, True)], None,
      growth_indexer\<lparr>block_process_limit := 8\<rparr>,
      \<lparr>rows = [(''0xA'', 103)],
       trace = tr @ [Db_Aggregate_Min (Some {''0xA''}), Find_Call {''0xA''} 100 101 102,
                     Db_Update {''0xA''} 100 102 102,
                     Db_Aggregate_Min (Some {''0xA''}), Find_Call {''0xA''} 99 102 102,
                     Db_Update {''0xA''} 99 103 103]\<rparr>)"
  by (simp add: batches.simps [of _ _ _ _ growth_indexer]
        batches.simps [of _ _ _ _ "growth_indexer\<lparr>block_process_limit := 4\<rparr>"]
        growth_step1 growth_step2)

lemma growth_tier2:
  "get_not_updated_addresses (growth_indexer\<lparr>block_process_limit := 8\<rparr>) 102
     \<lparr>rows = [(''0xA'', 103)], trace = tr\<rparr> =
     ({}, \<lparr>rows = [(''0xA'', 103)], trace = tr @ [Db_Filter_Lte 102]\<rparr>)"
  by (auto simp add: eval_defs growth_indexer_def)

lemma growth_start:
  "fst (start fast_finder keep_element growth_indexer growth_world) = Inr (2, 3)"
proof -
  have cur: "client_block_number growth_indexer = 102"
    by (simp add: growth_indexer_def)
  show ?thesis
    unfolding start_def start_with_def Let_def cur growth_tier1
    by (simp add: almost_updated_loop_batches growth_batches growth_tier2 total_elements_def
          first_seen_def first_block_def last_block_def number_of_blocks_processed_def)
qed

lemma growth_tier_batches:
  "tier_batches fast_finder keep_element growth_indexer growth_world =
     ([([101], Some 100, 101, False), ([102], Some 99, 102, True)], [])"
proof -
  have cur: "client_block_number growth_indexer = 102"
    by (simp add: growth_indexer_def)
  show ?thesis
    unfolding tier_batches_def Let_def cur growth_tier1
    by (simp add: growth_batches growth_tier2)
qed

lemma increment_raises_without_range:
  "fst (not_updated_loop quiet_finder keep_element {''0xA''} 12 scenario_indexer
          synced_world 0 None) = Inl TypeError"
  and "fst (not_updated_loop_without_increment quiet_finder keep_element {''0xA''} 12
              scenario_indexer synced_world 0 None) = Inr (0, None, 12)"
proof -
  have none: "fst (get_block_numbers_for_search scenario_indexer {''0xA''} (Some 12)
                     synced_world) = None"
    by (simp add: search_result get_from_block_number_def synced_world_def address_in_def
          scenario_indexer_def current_or_client_def)
  have step: "process_addresses quiet_finder keep_element scenario_indexer {''0xA''}
                (Some 12) synced_world =
                (Inr ([], None, 12, True), scenario_indexer,
                 emit (Db_Aggregate_Min (Some {''0xA''})) synced_world)"
    by (simp add: process_addresses_unfold none scenario_current)
  show "fst (not_updated_loop quiet_finder keep_element {''0xA''} 12 scenario_indexer
               synced_world 0 None) = Inl TypeError"
    by (simp add: not_updated_loop.simps [of _ _ _ _ scenario_indexer] step
          lower_start_block_def)
  show "fst (not_updated_loop_without_increment quiet_finder keep_element {''0xA''} 12
               scenario_indexer synced_world 0 None) = Inr (0, None, 12)"
    by (simp add: not_updated_loop_without_increment.simps [of _ _ _ _ scenario_indexer] step
          lower_start_block_def)
qed

section \<open>The commit and the consistency check\<close>

text \<open>
  C1, as stated, fails: over two addresses at watermarks 0 and 50, the commit of the
  range \<open>(0, 9)\<close> updates one row, which differs from the number of addresses, and the
  batch returns normally.
\<close>

theorem commit_count_counterexample:
  "card {''0xA'', ''0xB''} = 2
   \<and> fst (update_monitored_addresses two_indexer {''0xA'', ''0xB''} 0 9 two_world) = 1
   \<and> process_addresses quiet_finder keep_element two_indexer {''0xA'', ''0xB''} (Some 100)
         two_world =
         (Inr ([], Some 0, 9, False), two_indexer,
          \<lparr>rows = [(''0xA'', 10), (''0xB'', 50)],
           trace = [Db_Aggregate_Min (Some {''0xA'', ''0xB''}),
                    Find_Call {''0xA'', ''0xB''} 0 9 100,
                    Db_Update {''0xA'', ''0xB''} 0 10 10]\<rparr>)"
proof -
  have "card {''0xA'', ''0xB''} = 2"
    by simp
  moreover have "fst (update_monitored_addresses two_indexer {''0xA'', ''0xB''} 0 9 two_world) = 1"
    by (simp add: update_monitored_addresses_def two_world_def selected_def)
  moreover have "find_and_process quiet_finder keep_element two_indexer {''0xA'', ''0xB''}
                   0 9 100 = (Inr [], two_indexer)"
    by (simp add: find_and_process_def quiet_finder_def)
  then have "process_addresses quiet_finder keep_element two_indexer {''0xA'', ''0xB''}
               (Some 100) two_world =
         (Inr ([], Some 0, 9, False), two_indexer,
          \<lparr>rows = [(''0xA'', 10), (''0xB'', 50)],
           trace = [Db_Aggregate_Min (Some {''0xA'', ''0xB''}),
                    Find_Call {''0xA'', ''0xB''} 0 9 100,
                    Db_Update {''0xA'', ''0xB''} 0 10 10]\<rparr>)"
    by (simp add: process_addresses_unfold two_range two_current)
       (simp add: two_world_def two_indexer_def emit_def update_rows_def selected_def)
  ultimately show ?thesis
    by simp
qed

text \<open>
  C1, amended. The commit of a range \<open>(from, to)\<close> over \<open>addresses\<close> sets the watermark to
  \<open>to + 1\<close> exactly for the rows of \<open>addresses\<close> whose watermark is in \<open>[from, to + 1)\<close>
  and returns their number. When that number is 0 the batch raises \<^verbatim>\<open>ValueError\<close> after
  this one update, and both loops of \<^verbatim>\<open>start\<close> end with the exception in the state the
  batch left. When the number is not 0 the batch returns normally, whether or not it equals
  the number of addresses.
\<close>

theorem commit_and_consistency_check:
  assumes "a \<noteq> {}"
    and "fst (get_block_numbers_for_search self a (Some cur) w) = Some (f, t)"
    and "find_and_process finder pe self a f t (current_or_client self (Some cur))
           = (Inr ps, self1)"
  shows "\<exists>w'. snd (snd (process_addresses finder pe self a (Some cur) w)) = w'
      \<and> rows w' = map (\<lambda>r. if fst r \<in> a \<and> f \<le> snd r \<and> snd r < t + 1
                            then (fst r, t + 1) else r) (rows w)
      \<and> trace w' = trace w @ [Db_Aggregate_Min (Some a),
                               Find_Call a f t (current_or_client self (Some cur)),
                               Db_Update a f (t + 1) (t + 1)]
      \<and> fst (update_monitored_addresses self1 a f t w)
          = int (length (filter (\<lambda>r. fst r \<in> a \<and> f \<le> snd r \<and> snd r < t + 1) (rows w)))
      \<and> (fst (update_monitored_addresses self1 a f t w) = 0 \<longrightarrow>
            process_addresses finder pe self a (Some cur) w = (Inl ValueError, self1, w')
            \<and> rows w' = rows w
            \<and> almost_updated_loop finder pe a cur self w n sb = (Inl ValueError, self1, w')
            \<and> not_updated_loop finder pe a cur self w n sb = (Inl ValueError, self1, w'))
      \<and> (fst (update_monitored_addresses self1 a f t w) \<noteq> 0 \<longrightarrow>
            process_addresses finder pe self a (Some cur) w =
              (Inr (ps, Some f, t, t = current_or_client self (Some cur) - confirmations self),
               self1, w'))"
proof -
  let ?w' = "snd (snd (process_addresses finder pe self a (Some cur) w))"
  let ?sel = "\<lambda>r. fst r \<in> a \<and> f \<le> snd r \<and> snd r < t + 1"
  have sel: "selected a f (t + 1) = ?sel"
    by (rule ext) (simp add: selected_def)
  have count: "fst (update_monitored_addresses self1 a f t w)
                 = int (length (filter ?sel (rows w)))"
    by (simp add: update_monitored_addresses_def Let_def sel)
  have rows: "rows ?w' = map (\<lambda>r. if ?sel r then (fst r, t + 1) else r) (rows w)"
    using assms by (simp add: process_addresses_unfold emit_def update_rows_def sel)
  have trace: "trace ?w' = trace w @ [Db_Aggregate_Min (Some a),
                               Find_Call a f t (current_or_client self (Some cur)),
                               Db_Update a f (t + 1) (t + 1)]"
    using assms by (simp add: process_addresses_unfold emit_def)
  have zero: "process_addresses finder pe self a (Some cur) w = (Inl ValueError, self1, ?w')
              \<and> rows ?w' = rows w"
    if "fst (update_monitored_addresses self1 a f t w) = 0"
  proof -
    have none: "filter ?sel (rows w) = []"
      using that count by simp
    then have "\<forall>r \<in> set (rows w). \<not> ?sel r"
      by (simp add: filter_empty_conv)
    then have "map (\<lambda>r. if ?sel r then (fst r, t + 1) else r) (rows w) = rows w"
      by (intro map_idI) auto
    then show ?thesis
      using assms none rows by (simp add: process_addresses_unfold sel)
  qed
  have nonzero: "process_addresses finder pe self a (Some cur) w =
              (Inr (ps, Some f, t, t = current_or_client self (Some cur) - confirmations self),
               self1, ?w')"
    if "fst (update_monitored_addresses self1 a f t w) \<noteq> 0"
  proof -
    have "filter ?sel (rows w) \<noteq> []"
      using that count by simp
    then show ?thesis
      using assms by (simp add: process_addresses_unfold sel)
  qed
  have loops: "almost_updated_loop finder pe a cur self w n sb = (Inl ValueError, self1, ?w')
               \<and> not_updated_loop finder pe a cur self w n sb = (Inl ValueError, self1, ?w')"
    if "fst (update_monitored_addresses self1 a f t w) = 0"
    using zero [OF that] by (simp add: loops_abort)
  show ?thesis
  proof (intro exI [of _ ?w'] conjI impI)
    show "snd (snd (process_addresses finder pe self a (Some cur) w)) = ?w'"
      by simp
  qed (use count rows trace zero nonzero loops in simp_all)
qed

theorem commit_and_consistency_check_witness:
  "fst (get_block_numbers_for_search two_indexer {''0xA'', ''0xB''} (Some 100) two_world)
     = Some (0, 9)
   \<and> find_and_process quiet_finder keep_element two_indexer {''0xA'', ''0xB''} 0 9
         (current_or_client two_indexer (Some 100)) = (Inr [], two_indexer)
   \<and> fst (update_monitored_addresses two_indexer {''0xA'', ''0xB''} 0 9 two_world) \<noteq> 0
   \<and> fst (process_addresses quiet_finder keep_element two_indexer {''0xA'', ''0xB''}
             (Some 100) two_world) = Inr ([], Some 0, 9, False)
   \<and> fst (get_block_numbers_for_search zero_limit_indexer {''0xA''} (Some 10) zero_limit_world)
       = Some (5, 4)
   \<and> find_and_process quiet_finder keep_element zero_limit_indexer {''0xA''} 5 4
         (current_or_client zero_limit_indexer (Some 10)) = (Inr [], zero_limit_indexer)
   \<and> fst (update_monitored_addresses zero_limit_indexer {''0xA''} 5 4 zero_limit_world) = 0
   \<and> fst (process_addresses quiet_finder keep_element zero_limit_indexer {''0xA''}
             (Some 10) zero_limit_world) = Inl ValueError
   \<and> fst (not_updated_loop quiet_finder keep_element {''0xA''} 10 zero_limit_indexer
             zero_limit_world 0 None) = Inl ValueError"
proof -
  have a1: "{''0xA'', ''0xB''} \<noteq> ({} :: address set)"
    by simp
  have a2: "fst (get_block_numbers_for_search two_indexer {''0xA'', ''0xB''} (Some 100)
                   two_world) = Some (0, 9)"
    by (rule two_range)
  have a3: "find_and_process quiet_finder keep_element two_indexer {''0xA'', ''0xB''} 0 9
              (current_or_client two_indexer (Some 100)) = (Inr [], two_indexer)"
    by (simp add: find_and_process_def quiet_finder_def)
  have a4: "fst (update_monitored_addresses two_indexer {''0xA'', ''0xB''} 0 9 two_world) \<noteq> 0"
    by (simp add: update_monitored_addresses_def two_world_def selected_def)
  have a5: "fst (process_addresses quiet_finder keep_element two_indexer {''0xA'', ''0xB''}
                   (Some 100) two_world) = Inr ([], Some 0, 9, False)"
  proof -
    from commit_and_consistency_check [OF a1 a2 a3] a4
    obtain w' where "process_addresses quiet_finder keep_element two_indexer
                       {''0xA'', ''0xB''} (Some 100) two_world =
        (Inr ([], Some 0, 9,
              9 = current_or_client two_indexer (Some 100) - confirmations two_indexer),
         two_indexer, w')"
      by blast
    moreover have "confirmations two_indexer = 0"
      by (simp add: two_indexer_def)
    ultimately show ?thesis
      by (simp add: two_current)
  qed
  have b1: "{''0xA''} \<noteq> ({} :: address set)"
    by simp
  have b2: "fst (get_block_numbers_for_search zero_limit_indexer {''0xA''} (Some 10)
                   zero_limit_world) = Some (5, 4)"
    by (rule zero_limit_search)
  have b3: "find_and_process quiet_finder keep_element zero_limit_indexer {''0xA''} 5 4
              (current_or_client zero_limit_indexer (Some 10)) = (Inr [], zero_limit_indexer)"
    by (simp add: find_and_process_def quiet_finder_def)
  have b4: "fst (update_monitored_addresses zero_limit_indexer {''0xA''} 5 4 zero_limit_world)
              = 0"
    by (simp add: update_monitored_addresses_def zero_limit_world_def selected_def)
  have b5: "fst (process_addresses quiet_finder keep_element zero_limit_indexer {''0xA''}
                   (Some 10) zero_limit_world) = Inl ValueError
            \<and> fst (not_updated_loop quiet_finder keep_element {''0xA''} 10 zero_limit_indexer
                     zero_limit_world 0 None) = Inl ValueError"
  proof -
    from commit_and_consistency_check [OF b1 b2 b3, of 0 None] b4
    obtain w' where "process_addresses quiet_finder keep_element zero_limit_indexer {''0xA''}
                       (Some 10) zero_limit_world = (Inl ValueError, zero_limit_indexer, w')"
      and "not_updated_loop quiet_finder keep_element {''0xA''} 10 zero_limit_indexer
             zero_limit_world 0 None = (Inl ValueError, zero_limit_indexer, w')"
      by blast
    then show ?thesis
      by simp
  qed
  from a2 a3 a4 a5 b2 b3 b4 b5 show ?thesis
    by simp
qed

section \<open>Exceptions raised while finding and processing\<close>

text \<open>
  C2. When the range calculator returned a range and the find-and-process phase raises
  one of \<^verbatim>\<open>FindRelevantElementsException\<close>, \<^verbatim>\<open>SoftTimeLimitExceeded\<close>,
  \<^verbatim>\<open>Timeout\<close>, \<^verbatim>\<open>ValueError\<close> and \<^verbatim>\<open>Web3RPCError\<close>, the batch ends with that same
  exception and the block limit set to 1. The table is as it was: the trace holds the
  query of the minimum and one call of the finder, and no update.
\<close>

theorem transient_error_resets_limit:
  assumes "a \<noteq> {}"
    and "fst (get_block_numbers_for_search self a c w) = Some (f, t)"
    and "fst (find_and_process finder pe self a f t (current_or_client self c)) = Inl e"
    and "e \<in> {FindRelevantElementsException, SoftTimeLimitExceeded, Timeout, ValueError,
               Web3RPCError}"
  shows "process_addresses finder pe self a c w =
           (Inl e, self\<lparr>block_process_limit := 1\<rparr>,
            w\<lparr>trace := trace w @ [Db_Aggregate_Min (Some a),
                                   Find_Call a f t (current_or_client self c)]\<rparr>)"
proof -
  obtain self1 where fp:
    "find_and_process finder pe self a f t (current_or_client self c) = (Inl e, self1)"
    using assms(3)
    by (cases "find_and_process finder pe self a f t (current_or_client self c)") auto
  have eq: "self1 = self\<lparr>block_process_limit := block_process_limit self1\<rparr>"
    using fp by (rule find_and_process_self)
  have self1: "self1\<lparr>block_process_limit := 1\<rparr> = self\<lparr>block_process_limit := 1\<rparr>"
    by (subst eq) simp
  have "caught e"
    using assms(4) by auto
  then show ?thesis
    using assms(1,2) fp self1 by (simp add: process_addresses_unfold emit_def)
qed

theorem transient_error_resets_limit_witness:
  "{''0xA''} \<noteq> ({} :: address set)
   \<and> fst (get_block_numbers_for_search scenario_indexer {''0xA''} (Some 12) scenario_world)
        = Some (0, 2)
   \<and> fst (find_and_process timeout_finder keep_element scenario_indexer {''0xA''} 0 2
             (current_or_client scenario_indexer (Some 12))) = Inl Timeout
   \<and> process_addresses timeout_finder keep_element scenario_indexer {''0xA''} (Some 12)
         scenario_world =
         (Inl Timeout, scenario_indexer\<lparr>block_process_limit := 1\<rparr>,
          \<lparr>rows = [(''0xA'', 0)],
           trace = [Db_Aggregate_Min (Some {''0xA''}), Find_Call {''0xA''} 0 2 12]\<rparr>)"
proof -
  have h1: "{''0xA''} \<noteq> ({} :: address set)"
    by simp
  have h2: "fst (get_block_numbers_for_search scenario_indexer {''0xA''} (Some 12)
                   scenario_world) = Some (0, 2)"
    by (rule scenario_range)
  have h3: "fst (find_and_process timeout_finder keep_element scenario_indexer {''0xA''} 0 2
                   (current_or_client scenario_indexer (Some 12))) = Inl Timeout"
    by (simp add: find_and_process_def timeout_finder_def)
  have h4: "Timeout \<in> {FindRelevantElementsException, SoftTimeLimitExceeded, Timeout,
                        ValueError, Web3RPCError}"
    by simp
  from transient_error_resets_limit [OF h1 h2 h3 h4]
  have "process_addresses timeout_finder keep_element scenario_indexer {''0xA''} (Some 12)
          scenario_world =
          (Inl Timeout, scenario_indexer\<lparr>block_process_limit := 1\<rparr>,
           \<lparr>rows = [(''0xA'', 0)],
            trace = [Db_Aggregate_Min (Some {''0xA''}), Find_Call {''0xA''} 0 2 12]\<rparr>)"
    by (simp add: scenario_world_def scenario_current)
  with h1 h2 h3 show ?thesis
    by simp
qed

section \<open>The block range\<close>

text \<open>
  C3. Whenever the minimum watermark \<open>m\<close> of the addresses is at least
  \<open>confirmations\<close> blocks behind the current height, the range calculator returns a range,
  its upper bound is the smaller of \<open>m + block_process_limit - 1\<close> and the current
  height minus \<open>confirmations\<close>, and so it never exceeds the current height minus
  \<open>confirmations\<close>.
\<close>

theorem to_block_number_bound:
  assumes "fst (get_from_block_number self (Some addresses) w) = Some m"
    and "confirmations self \<le> current_or_client self c - m"
  shows "\<exists>from_block_number to_block_number.
           fst (get_block_numbers_for_search self addresses c w)
             = Some (from_block_number, to_block_number)
           \<and> to_block_number = min (m + block_process_limit self - 1)
                                    (current_or_client self c - confirmations self)
           \<and> to_block_number \<le> current_or_client self c - confirmations self"
  using assms by (simp add: search_result get_to_block_number_def)

theorem to_block_number_bound_witness:
  "fst (get_from_block_number scenario_indexer (Some {''0xA''}) scenario_world) = Some 0
   \<and> confirmations scenario_indexer \<le> current_or_client scenario_indexer (Some 12) - 0
   \<and> (\<exists>from_block_number to_block_number.
          fst (get_block_numbers_for_search scenario_indexer {''0xA''} (Some 12) scenario_world)
            = Some (from_block_number, to_block_number)
          \<and> to_block_number = min (0 + block_process_limit scenario_indexer - 1)
               (current_or_client scenario_indexer (Some 12) - confirmations scenario_indexer)
          \<and> to_block_number
               \<le> current_or_client scenario_indexer (Some 12) - confirmations scenario_indexer)"
proof -
  have h1: "fst (get_from_block_number scenario_indexer (Some {''0xA''}) scenario_world) = Some 0"
    by (simp add: get_from_block_number_def scenario_world_def address_in_def)
  have h2: "confirmations scenario_indexer \<le> current_or_client scenario_indexer (Some 12) - 0"
    by (simp add: scenario_indexer_def current_or_client_def)
  from h1 h2 to_block_number_bound [OF h1 h2] show ?thesis
    by (intro conjI)
qed

text \<open>
  C4. When the untruncated window \<open>m + block_process_limit - 1\<close> lands at or past the
  current height minus \<open>confirmations\<close>, the returned lower bound is the minimum watermark
  \<open>m\<close> lowered by the smaller of \<open>block_process_limit - (to - m + 1)\<close> and
  \<open>blocks_to_reindex_again\<close>, and floored at 0. Otherwise the returned lower bound is
  \<open>m\<close>.
\<close>

theorem reindex_margin:
  assumes "fst (get_from_block_number self (Some addresses) w) = Some m"
    and "fst (get_block_numbers_for_search self addresses c w) = Some (f, t)"
  shows "(current_or_client self c - confirmations self \<le> m + block_process_limit self - 1 \<longrightarrow>
            f = max (m - min (block_process_limit self - (t - m + 1))
                             (blocks_to_reindex_again self)) 0)
       \<and> (m + block_process_limit self - 1 < current_or_client self c - confirmations self \<longrightarrow>
            f = m)"
  using assms by (auto simp add: search_result split: if_splits)

theorem reindex_margin_witness:
  "fst (get_from_block_number tip_indexer (Some {''0xA''}) tip_world) = Some 40
   \<and> fst (get_block_numbers_for_search tip_indexer {''0xA''} (Some 50) tip_world) = Some (10, 50)
   \<and> current_or_client tip_indexer (Some 50) - confirmations tip_indexer
        \<le> 40 + block_process_limit tip_indexer - 1
   \<and> (10::int) = max (40 - min (block_process_limit tip_indexer - (50 - 40 + 1))
                                (blocks_to_reindex_again tip_indexer)) 0
   \<and> fst (get_from_block_number two_indexer (Some {''0xA'', ''0xB''}) two_world) = Some 0
   \<and> fst (get_block_numbers_for_search two_indexer {''0xA'', ''0xB''} (Some 100) two_world)
        = Some (0, 9)
   \<and> 0 + block_process_limit two_indexer - 1
        < current_or_client two_indexer (Some 100) - confirmations two_indexer"
proof -
  have h1: "fst (get_from_block_number tip_indexer (Some {''0xA''}) tip_world) = Some 40"
    by (simp add: get_from_block_number_def tip_world_def address_in_def)
  have h2: "fst (get_block_numbers_for_search tip_indexer {''0xA''} (Some 50) tip_world)
              = Some (10, 50)"
    by (simp add: search_result get_from_block_number_def tip_world_def address_in_def
          tip_indexer_def current_or_client_def get_to_block_number_def)
  have h3: "current_or_client tip_indexer (Some 50) - confirmations tip_indexer
              \<le> 40 + block_process_limit tip_indexer - 1"
    by (simp add: tip_indexer_def current_or_client_def)
  have k1: "fst (get_from_block_number two_indexer (Some {''0xA'', ''0xB''}) two_world)
              = Some 0"
    by (simp add: get_from_block_number_def two_world_def address_in_def)
  have k2: "fst (get_block_numbers_for_search two_indexer {''0xA'', ''0xB''} (Some 100)
                   two_world) = Some (0, 9)"
    by (rule two_range)
  have k3: "0 + block_process_limit two_indexer - 1
              < current_or_client two_indexer (Some 100) - confirmations two_indexer"
    by (simp add: two_indexer_def current_or_client_def)
  from h1 h2 h3 k1 k2 k3 reindex_margin [OF h1 h2] reindex_margin [OF k1 k2] show ?thesis
    by blast
qed

section \<open>The adaptive block limit\<close>

lemma adjust_block_limit_limit:
  "block_process_limit (adjust_block_limit self d) =
     (let l = (if d > 30 then max (block_process_limit self div 2) 1
               else if d > 10 then max (block_process_limit self - 20) 1
               else if d < 2 then block_process_limit self * 2
               else if d < 5 then block_process_limit self + 20
               else block_process_limit self)
      in if block_process_limit_max self \<noteq> 0 \<and> l > block_process_limit_max self
         then block_process_limit_max self else l)"
  by (simp add: adjust_block_limit_def Let_def)

lemma adjust_block_limit_only_limit:
  "adjust_block_limit self d =
     self\<lparr>block_process_limit := block_process_limit (adjust_block_limit self d)\<rparr>"
  by (simp add: adjust_block_limit_def Let_def)

text \<open>
  C5. The wrapped block having returned after \<open>d\<close> seconds: unless auto-tuning is enabled
  and the window \<open>1 + to - from\<close> equals the block limit, the block limit is left as it is.
  Otherwise \<open>d > 30\<close> halves it (floor 1), \<open>30 \<ge> d > 10\<close> subtracts 20 (floor 1),
  \<open>d < 2\<close> doubles it, \<open>5 > d \<ge> 2\<close> adds 20 and \<open>10 \<ge> d \<ge> 5\<close> leaves it unchanged;
  the result is then replaced by the maximum when the maximum is set (not 0) and exceeded.
\<close>

theorem throttle_rule:
  assumes "body self = (Inr x, self', d)"
  shows "(\<not> (block_auto_process_limit self
              \<and> 1 + t - f = block_process_limit self) \<longrightarrow>
            auto_adjust_block_limit self f t body = (Inr x, self'))
       \<and> (block_auto_process_limit self \<and> 1 + t - f = block_process_limit self \<longrightarrow>
            (\<exists>l. (30 < d \<longrightarrow> l = max (block_process_limit self' div 2) 1)
                \<and> (10 < d \<and> d \<le> 30 \<longrightarrow> l = max (block_process_limit self' - 20) 1)
                \<and> (d < 2 \<longrightarrow> l = block_process_limit self' * 2)
                \<and> (2 \<le> d \<and> d < 5 \<longrightarrow> l = block_process_limit self' + 20)
                \<and> (5 \<le> d \<and> d \<le> 10 \<longrightarrow> l = block_process_limit self')
                \<and> auto_adjust_block_limit self f t body =
                    (Inr x, self'\<lparr>block_process_limit :=
                               if block_process_limit_max self' \<noteq> 0
                                  \<and> block_process_limit_max self' < l
                               then block_process_limit_max self' else l\<rparr>)))"
proof (intro conjI impI)
  assume "\<not> (block_auto_process_limit self \<and> 1 + t - f = block_process_limit self)"
  then show "auto_adjust_block_limit self f t body = (Inr x, self')"
    using assms by (simp add: auto_adjust_block_limit_def)
next
  assume on: "block_auto_process_limit self \<and> 1 + t - f = block_process_limit self"
  let ?l = "if d > 30 then max (block_process_limit self' div 2) 1
            else if d > 10 then max (block_process_limit self' - 20) 1
            else if d < 2 then block_process_limit self' * 2
            else if d < 5 then block_process_limit self' + 20
            else block_process_limit self'"
  have "auto_adjust_block_limit self f t body = (Inr x, adjust_block_limit self' d)"
    using on assms by (simp add: auto_adjust_block_limit_def)
  moreover have "adjust_block_limit self' d =
      self'\<lparr>block_process_limit :=
               if block_process_limit_max self' \<noteq> 0 \<and> block_process_limit_max self' < ?l
               then block_process_limit_max self' else ?l\<rparr>"
    by (subst adjust_block_limit_only_limit) (simp add: adjust_block_limit_limit Let_def)
  ultimately show "\<exists>l. (30 < d \<longrightarrow> l = max (block_process_limit self' div 2) 1)
                \<and> (10 < d \<and> d \<le> 30 \<longrightarrow> l = max (block_process_limit self' - 20) 1)
                \<and> (d < 2 \<longrightarrow> l = block_process_limit self' * 2)
                \<and> (2 \<le> d \<and> d < 5 \<longrightarrow> l = block_process_limit self' + 20)
                \<and> (5 \<le> d \<and> d \<le> 10 \<longrightarrow> l = block_process_limit self')
                \<and> auto_adjust_block_limit self f t body =
                    (Inr x, self'\<lparr>block_process_limit :=
                               if block_process_limit_max self' \<noteq> 0
                                  \<and> block_process_limit_max self' < l
                               then block_process_limit_max self' else l\<rparr>)"
    by (intro exI [of _ ?l]) simp
qed

theorem throttle_rule_witness:
  "block_auto_process_limit scenario_indexer
   \<and> 1 + 4 - 0 = block_process_limit scenario_indexer
   \<and> auto_adjust_block_limit scenario_indexer 0 4 (took 35)
       = (Inr (), scenario_indexer\<lparr>block_process_limit := 2\<rparr>)
   \<and> auto_adjust_block_limit scenario_indexer 0 4 (took 20)
       = (Inr (), scenario_indexer\<lparr>block_process_limit := 1\<rparr>)
   \<and> auto_adjust_block_limit scenario_indexer 0 4 (took 1)
       = (Inr (), scenario_indexer\<lparr>block_process_limit := 10\<rparr>)
   \<and> auto_adjust_block_limit scenario_indexer 0 4 (took 3)
       = (Inr (), scenario_indexer\<lparr>block_process_limit := 25\<rparr>)
   \<and> auto_adjust_block_limit scenario_indexer 0 4 (took 7)
       = (Inr (), scenario_indexer\<lparr>block_process_limit := 5\<rparr>)
   \<and> \<not> (block_auto_process_limit scenario_indexer
           \<and> 1 + 2 - 0 = block_process_limit scenario_indexer)
   \<and> auto_adjust_block_limit scenario_indexer 0 2 (took 35) = (Inr (), scenario_indexer)
   \<and> block_auto_process_limit capped_indexer
   \<and> 1 + 49 - 0 = block_process_limit capped_indexer
   \<and> auto_adjust_block_limit capped_indexer 0 49 (took 1)
       = (Inr (), capped_indexer\<lparr>block_process_limit := 60\<rparr>)"
proof -
  have on: "block_auto_process_limit scenario_indexer
            \<and> 1 + 4 - 0 = block_process_limit scenario_indexer"
    by (simp add: scenario_indexer_def)
  have off: "\<not> (block_auto_process_limit scenario_indexer
                \<and> 1 + 2 - 0 = block_process_limit scenario_indexer)"
    by (simp add: scenario_indexer_def)
  have limit: "block_process_limit scenario_indexer = 5"
    and no_max: "block_process_limit_max scenario_indexer = 0"
    by (simp_all add: scenario_indexer_def)
  have t35: "took 35 scenario_indexer = (Inr (), scenario_indexer, 35)"
    by (simp add: took_def)
  from throttle_rule [where body = "took 35" and self = scenario_indexer and t = 4 and f = 0,
      OF t35] on
  obtain l where "l = max (block_process_limit scenario_indexer div 2) 1"
    and "auto_adjust_block_limit scenario_indexer 0 4 (took 35) =
           (Inr (), scenario_indexer\<lparr>block_process_limit :=
              if block_process_limit_max scenario_indexer \<noteq> 0
                 \<and> block_process_limit_max scenario_indexer < l
              then block_process_limit_max scenario_indexer else l\<rparr>)"
    by auto
  then have halved: "auto_adjust_block_limit scenario_indexer 0 4 (took 35)
               = (Inr (), scenario_indexer\<lparr>block_process_limit := 2\<rparr>)"
    by (simp add: limit no_max)
  have t20: "took 20 scenario_indexer = (Inr (), scenario_indexer, 20)"
    by (simp add: took_def)
  from throttle_rule [where body = "took 20" and self = scenario_indexer and t = 4 and f = 0,
      OF t20] on
  obtain l where "l = max (block_process_limit scenario_indexer - 20) 1"
    and "auto_adjust_block_limit scenario_indexer 0 4 (took 20) =
           (Inr (), scenario_indexer\<lparr>block_process_limit :=
              if block_process_limit_max scenario_indexer \<noteq> 0
                 \<and> block_process_limit_max scenario_indexer < l
              then block_process_limit_max scenario_indexer else l\<rparr>)"
    by auto
  then have lowered: "auto_adjust_block_limit scenario_indexer 0 4 (took 20)
               = (Inr (), scenario_indexer\<lparr>block_process_limit := 1\<rparr>)"
    by (simp add: limit no_max)
  have t1: "took 1 scenario_indexer = (Inr (), scenario_indexer, 1)"
    by (simp add: took_def)
  from throttle_rule [where body = "took 1" and self = scenario_indexer and t = 4 and f = 0,
      OF t1] on
  obtain l where "l = block_process_limit scenario_indexer * 2"
    and "auto_adjust_block_limit scenario_indexer 0 4 (took 1) =
           (Inr (), scenario_indexer\<lparr>block_process_limit :=
              if block_process_limit_max scenario_indexer \<noteq> 0
                 \<and> block_process_limit_max scenario_indexer < l
              then block_process_limit_max scenario_indexer else l\<rparr>)"
    by auto
  then have doubled: "auto_adjust_block_limit scenario_indexer 0 4 (took 1)
               = (Inr (), scenario_indexer\<lparr>block_process_limit := 10\<rparr>)"
    by (simp add: limit no_max)
  have t3: "took 3 scenario_indexer = (Inr (), scenario_indexer, 3)"
    by (simp add: took_def)
  from throttle_rule [where body = "took 3" and self = scenario_indexer and t = 4 and f = 0,
      OF t3] on
  obtain l where "l = block_process_limit scenario_indexer + 20"
    and "auto_adjust_block_limit scenario_indexer 0 4 (took 3) =
           (Inr (), scenario_indexer\<lparr>block_process_limit :=
              if block_process_limit_max scenario_indexer \<noteq> 0
                 \<and> block_process_limit_max scenario_indexer < l
              then block_process_limit_max scenario_indexer else l\<rparr>)"
    by auto
  then have raised: "auto_adjust_block_limit scenario_indexer 0 4 (took 3)
               = (Inr (), scenario_indexer\<lparr>block_process_limit := 25\<rparr>)"
    by (simp add: limit no_max)
  have t7: "took 7 scenario_indexer = (Inr (), scenario_indexer, 7)"
    by (simp add: took_def)
  from throttle_rule [where body = "took 7" and self = scenario_indexer and t = 4 and f = 0,
      OF t7] on
  obtain l where "l = block_process_limit scenario_indexer"
    and "auto_adjust_block_limit scenario_indexer 0 4 (took 7) =
           (Inr (), scenario_indexer\<lparr>block_process_limit :=
              if block_process_limit_max scenario_indexer \<noteq> 0
                 \<and> block_process_limit_max scenario_indexer < l
              then block_process_limit_max scenario_indexer else l\<rparr>)"
    by auto
  then have kept: "auto_adjust_block_limit scenario_indexer 0 4 (took 7)
               = (Inr (), scenario_indexer\<lparr>block_process_limit := 5\<rparr>)"
    by (simp add: limit no_max)
  from throttle_rule [where body = "took 35" and self = scenario_indexer and t = 2 and f = 0,
      OF t35] off
  have same: "auto_adjust_block_limit scenario_indexer 0 2 (took 35) = (Inr (), scenario_indexer)"
    by blast
  have capped_on: "block_auto_process_limit capped_indexer
                   \<and> 1 + 49 - 0 = block_process_limit capped_indexer"
    by (simp add: capped_indexer_def)
  have c1: "took 1 capped_indexer = (Inr (), capped_indexer, 1)"
    by (simp add: took_def)
  from throttle_rule [where body = "took 1" and self = capped_indexer and t = 49 and f = 0,
      OF c1] capped_on
  obtain l where "l = block_process_limit capped_indexer * 2"
    and "auto_adjust_block_limit capped_indexer 0 49 (took 1) =
           (Inr (), capped_indexer\<lparr>block_process_limit :=
              if block_process_limit_max capped_indexer \<noteq> 0
                 \<and> block_process_limit_max capped_indexer < l
              then block_process_limit_max capped_indexer else l\<rparr>)"
    by auto
  moreover have "block_process_limit capped_indexer = 50"
    and "block_process_limit_max capped_indexer = 60"
    by (simp_all add: capped_indexer_def)
  ultimately have capped: "auto_adjust_block_limit capped_indexer 0 49 (took 1)
               = (Inr (), capped_indexer\<lparr>block_process_limit := 60\<rparr>)"
    by simp
  from on off halved lowered doubled raised kept same capped_on capped show ?thesis
    by blast
qed

lemma within_bounds_adjust:
  assumes "10 < d \<or> 1 \<le> block_process_limit self" and "0 \<le> block_process_limit_max self"
  shows "within_bounds (adjust_block_limit self d)"
  using assms
  by (subst adjust_block_limit_only_limit)
     (auto simp add: within_bounds_def adjust_block_limit_limit Let_def)

text \<open>
  The throttle keeps the block limit within its bounds when the maximum is not negative
  and the limit is at least 1 before an adjustment that does not decrease it; the failure
  reset sets it to 1.
\<close>

lemma window_bounds_preserved:
  "(body self = (Inr x, self', d)
      \<and> block_auto_process_limit self \<and> 1 + t - f = block_process_limit self
      \<and> (10 < d \<or> 1 \<le> block_process_limit self') \<and> 0 \<le> block_process_limit_max self'
    \<longrightarrow> within_bounds (snd (auto_adjust_block_limit self f t body)))
   \<and> (a \<noteq> {}
        \<and> fst (get_block_numbers_for_search self a c w) = Some (f', t')
        \<and> fst (find_and_process finder pe self a f' t' (current_or_client self c)) = Inl e
        \<and> caught e
    \<longrightarrow> block_process_limit (fst (snd (process_addresses finder pe self a c w))) = 1
        \<and> within_bounds (fst (snd (process_addresses finder pe self a c w))))"
proof (intro conjI impI)
  assume h: "body self = (Inr x, self', d)
      \<and> block_auto_process_limit self \<and> 1 + t - f = block_process_limit self
      \<and> (10 < d \<or> 1 \<le> block_process_limit self') \<and> 0 \<le> block_process_limit_max self'"
  then have "snd (auto_adjust_block_limit self f t body) = adjust_block_limit self' d"
    by (simp add: auto_adjust_block_limit_def)
  with h show "within_bounds (snd (auto_adjust_block_limit self f t body))"
    by (simp add: within_bounds_adjust)
next
  assume h: "a \<noteq> {}
        \<and> fst (get_block_numbers_for_search self a c w) = Some (f', t')
        \<and> fst (find_and_process finder pe self a f' t' (current_or_client self c)) = Inl e
        \<and> caught e"
  obtain self1 where fp:
    "find_and_process finder pe self a f' t' (current_or_client self c) = (Inl e, self1)"
    using h by (cases "find_and_process finder pe self a f' t' (current_or_client self c)") auto
  have res: "fst (snd (process_addresses finder pe self a c w))
               = self1\<lparr>block_process_limit := 1\<rparr>"
    using h fp by (simp add: process_addresses_unfold)
  show "block_process_limit (fst (snd (process_addresses finder pe self a c w))) = 1"
    by (simp add: res)
  show "within_bounds (fst (snd (process_addresses finder pe self a c w)))"
    by (auto simp add: res within_bounds_def)
qed

text \<open>
  On a window with \<open>from \<le> to\<close> that has the size of the block limit, the limit is at
  least 1 before the adjustment, so the bounds hold after it.
\<close>

lemma ordered_window_bounds:
  assumes "body self = (Inr x, self', d)"
    and "block_auto_process_limit self" and "1 + t - f = block_process_limit self"
    and "f \<le> t"
    and "block_process_limit self' = block_process_limit self"
    and "0 \<le> block_process_limit_max self'"
  shows "within_bounds (snd (auto_adjust_block_limit self f t body))"
proof -
  have "snd (auto_adjust_block_limit self f t body) = adjust_block_limit self' d"
    using assms(1-3) by (simp add: auto_adjust_block_limit_def)
  moreover have "1 \<le> block_process_limit self'"
    using assms(3-5) by linarith
  ultimately show ?thesis
    using assms(6) by (simp add: within_bounds_adjust)
qed

text \<open>
  C6. After an adjustment the block limit is to be at least 1. With a block limit of 0,
  which the docstring of \<^verbatim>\<open>__init__\<close> describes as "no limit", the range calculator
  returns the window \<open>(5, 4)\<close>, which has the size of the block limit; a fetch that
  returns within a second doubles the limit, and the limit is 0 afterwards, in the
  throttle alone and in the whole batch. Halving and subtracting floor the limit at 1;
  doubling and adding 20 do not.
\<close>

theorem zero_limit_throttle:
  "block_auto_process_limit zero_limit_indexer
   \<and> 1 + 4 - 5 = block_process_limit zero_limit_indexer
   \<and> block_process_limit (snd (auto_adjust_block_limit zero_limit_indexer 5 4 (took 1))) = 0
   \<and> block_process_limit
        (fst (snd (process_addresses fast_finder keep_element zero_limit_indexer {''0xA''}
                     (Some 10) zero_limit_world))) = 0"
proof -
  have on: "block_auto_process_limit zero_limit_indexer
            \<and> 1 + 4 - 5 = block_process_limit zero_limit_indexer"
    by (simp add: zero_limit_indexer_def)
  have throttle: "block_process_limit
                    (snd (auto_adjust_block_limit zero_limit_indexer 5 4 (took d))) = 0"
    if "d < 2" for d
    using that
    by (simp add: auto_adjust_block_limit_def took_def adjust_block_limit_def
          zero_limit_indexer_def)
  have "block_process_limit
          (fst (snd (process_addresses fast_finder keep_element zero_limit_indexer {''0xA''}
                       (Some 10) zero_limit_world))) = 0"
    by (simp add: process_addresses_unfold zero_limit_search zero_limit_current
          find_and_process_def fast_finder_def throttle keep_element_def
          split: prod.splits sum.splits)
  with on throttle [of 1] show ?thesis
    by simp
qed

section \<open>Ordered ranges\<close>

text \<open>
  C7. The range calculator is to return pairs with \<open>from \<le> to\<close>. With a block limit of 0,
  which the docstring of \<^verbatim>\<open>__init__\<close> describes as "no limit", an address at watermark 5
  and the chain head at 10, it returns the pair \<open>(5, 4)\<close>.
\<close>

theorem zero_limit_range:
  "fst (get_block_numbers_for_search zero_limit_indexer {''0xA''} (Some 10) zero_limit_world)
     = Some (5, 4)"
  by (simp add: search_result get_from_block_number_def zero_limit_world_def address_in_def
        zero_limit_indexer_def current_or_client_def get_to_block_number_def)

section \<open>What \<^verbatim>\<open>start\<close> returns\<close>

text \<open>
  When \<^verbatim>\<open>start\<close> returns, its first number is the number of elements of all batches
  of the two tiers, and its second number spans from the first block of the first batch of
  the first tier, or a lower first block of a batch of the second tier, to the last block
  of the last batch of either tier.
\<close>

lemma start_counts:
  assumes "fst (start finder pe self w) = Inr (n, blocks)"
  shows "n = total_elements (fst (tier_batches finder pe self w)
                              @ snd (tier_batches finder pe self w))
       \<and> blocks = blocks_spanned (fst (tier_batches finder pe self w))
                     (snd (tier_batches finder pe self w))"
proof -
  let ?cur = "client_block_number self"
  obtain a1 w1 where almost: "get_almost_updated_addresses self ?cur w = (a1, w1)"
    by (cases "get_almost_updated_addresses self ?cur w") auto
  define tier1 where "tier1 =
     (if a1 \<noteq> {} then batches finder pe a1 ?cur self w1 else ([], None, self, w1))"
  obtain bs1 e1 self2 w2 where t1: "tier1 = (bs1, e1, self2, w2)"
    by (cases tier1) auto
  have first: "(if a1 \<noteq> {}
                then (case almost_updated_loop finder pe a1 ?cur self w1 0 None of
                        (Inl e, self', w') \<Rightarrow> (Inl e, self', w')
                      | (Inr (total_processed, start_block, to_block_number), self', w') \<Rightarrow>
                          (Inr (total_processed, start_block, Some to_block_number), self', w'))
                else (Inr (0, None, None), self, w1))
               = (case e1 of
                    Some e \<Rightarrow> (Inl e, self2, w2)
                  | None \<Rightarrow> (Inr (total_elements bs1, first_seen bs1, last_seen bs1),
                             self2, w2))"
  proof (cases "a1 = {}")
    case True
    then show ?thesis
      using t1 by (simp add: tier1_def total_elements_def first_seen_def last_seen_def)
  next
    case False
    then have b: "batches finder pe a1 ?cur self w1 = (bs1, e1, self2, w2)"
      using t1 by (simp add: tier1_def)
    show ?thesis
    proof (cases e1)
      case None
      then have "bs1 \<noteq> []"
        using b by (auto dest: batches_nonempty)
      then show ?thesis
        using False None b by (simp add: almost_updated_loop_batches last_seen_def)
    next
      case (Some e)
      then show ?thesis
        using False b by (simp add: almost_updated_loop_batches)
    qed
  qed
  have e1: "e1 = None"
  proof (cases e1)
    case None
    then show ?thesis .
  next
    case (Some e)
    then show ?thesis
      using assms almost first by (simp add: start_def start_with_def)
  qed
  obtain a2 w3 where not_upd: "get_not_updated_addresses self2 ?cur w2 = (a2, w3)"
    by (cases "get_not_updated_addresses self2 ?cur w2") auto
  define bs2 where "bs2 = (if a2 \<noteq> {} then fst (batches finder pe a2 ?cur self2 w3) else [])"
  have tiers: "tier_batches finder pe self w = (bs1, bs2)"
    using almost t1 e1 not_upd
    by (simp add: tier_batches_def tier1_def [symmetric] bs2_def)
  have result: "n = total_elements bs1 + total_elements bs2
                \<and> blocks = blocks_spanned bs1 bs2"
  proof (cases "a2 = {}")
    case True
    then have "bs2 = []"
      by (simp add: bs2_def)
    moreover have "fst (start finder pe self w) =
        Inr (total_elements bs1,
             number_of_blocks_processed (first_seen bs1) (last_seen bs1))"
      using almost first e1 not_upd True by (simp add: start_def start_with_def)
    moreover have "number_of_blocks_processed (first_seen bs1) (last_seen bs1)
                     = blocks_spanned bs1 []"
      using number_of_blocks_processed_spanned [of bs1 "[]"]
      by (simp add: lowest_first_def last_seen_def)
    ultimately show ?thesis
      using assms by (simp add: total_elements_def)
  next
    case False
    obtain r self4 w4 where loop:
      "not_updated_loop finder pe a2 ?cur self2 w3 (total_elements bs1) (first_seen bs1)
         = (r, self4, w4)"
      by (cases "not_updated_loop finder pe a2 ?cur self2 w3 (total_elements bs1)
                   (first_seen bs1)") auto
    show ?thesis
    proof (cases r)
      case (Inl e)
      then show ?thesis
        using assms almost first e1 not_upd False loop by (simp add: start_def start_with_def)
    next
      case (Inr x)
      obtain n' sb' t' where x: "x = (n', sb', t')"
        by (cases x) auto
      have loop': "not_updated_loop finder pe a2 ?cur self2 w3 (total_elements bs1)
                     (first_seen bs1) = (Inr (n', sb', t'), self4, w4)"
        using loop Inr x by simp
      from not_updated_loop_batches [OF loop']
      obtain bs where bs: "batches finder pe a2 ?cur self2 w3 = (bs, None, self4, w4)"
        "bs \<noteq> []" "n' = total_elements bs1 + total_elements bs"
        "sb' = min_option (first_seen bs1) (lowest_first bs)"
        "t' = last_block (last bs)"
        by auto
      have "bs2 = bs"
        using False bs(1) by (simp add: bs2_def)
      moreover have "fst (start finder pe self w) =
          Inr (n', number_of_blocks_processed sb' (raise_last_block (last_seen bs1) t'))"
        using almost first e1 not_upd False loop' by (simp add: start_def start_with_def)
      moreover have "raise_last_block (last_seen bs1) t'
                       = max_option (last_seen bs1) (last_seen bs)"
        using bs(2,5) by (simp add: raise_last_block_max last_seen_def)
      ultimately show ?thesis
        using assms bs(3,4) by (simp add: number_of_blocks_processed_spanned)
    qed
  qed
  then show ?thesis
    by (simp add: tiers total_elements_append)
qed

text \<open>
  C8. The number of blocks processed is to be the maximum last block seen minus the
  minimum first block seen, plus 1. In the run below the block limit grows from 2 to 4
  between the two batches of the first tier, and the second batch, which reaches the tip,
  is lowered by the reindex margin: the batches cover the blocks 100 to 101 and 99 to 102.
  The minimum first block is 99 and the maximum last block 102, four blocks, and
  \<^verbatim>\<open>start\<close> returns 3, since the first tier keeps the first block of its first batch only.
\<close>

theorem growing_limit_run:
  "tier_batches fast_finder keep_element growth_indexer growth_world =
     ([([101], Some 100, 101, False), ([102], Some 99, 102, True)], [])
   \<and> fst (start fast_finder keep_element growth_indexer growth_world) = Inr (2, 3)"
  using growth_tier_batches growth_start by simp

section \<open>The increment in the second loop\<close>

text \<open>
  C9. \<^verbatim>\<open>start\<close> without the statement \<^verbatim>\<open>from_block_number += 1\<close> returns the same
  value or raises the same exception as \<^verbatim>\<open>start\<close>, and leaves the same state and the
  same trace of queries, updates and finder calls. The statement raises only when a batch of
  the second tier has no range, which cannot happen for the addresses that
  \<^verbatim>\<open>get_not_updated_addresses\<close> selects.
\<close>

theorem increment_is_dead_code:
  "start_without_increment finder pe self w = start finder pe self w"
proof -
  let ?cur = "client_block_number self"
  have agree: "not_updated_loop_without_increment finder pe a ?cur self2 w3 n sb
                 = not_updated_loop finder pe a ?cur self2 w3 n sb"
    if "get_not_updated_addresses self2 ?cur w2 = (a, w3)" and "a \<noteq> {}"
      and "self2 = self\<lparr>block_process_limit := block_process_limit self2\<rparr>"
    for a self2 w2 w3 n sb
  proof -
    have "current_or_client self2 (Some ?cur) = ?cur"
      by (subst that(3)) simp
    with that(1,2) show ?thesis
      by (rule second_tier_agree)
  qed
  have same: "self = self\<lparr>block_process_limit := block_process_limit self\<rparr>"
    by simp
  show ?thesis
    unfolding start_def start_without_increment_def start_with_def Let_def
    by (auto split: prod.splits sum.splits if_splits
          simp add: agree [OF _ _ same] agree [OF _ _ almost_updated_loop_self])
qed

section \<open>A batch without a range\<close>

text \<open>
  C10. For a non-empty set of addresses for which the range calculator returns no range,
  the batch returns no elements, no first block, the current block number itself (not
  lowered by \<open>confirmations\<close>) as last block, and \<open>True\<close>; \<^verbatim>\<open>self\<close> and the table are
  as they were, and the trace holds only the query of the minimum.
\<close>

theorem no_range_step:
  assumes "a \<noteq> {}"
    and "fst (get_block_numbers_for_search self a c w) = None"
  shows "process_addresses finder pe self a c w =
           (Inr ([], None, current_or_client self c, True), self,
            w\<lparr>trace := trace w @ [Db_Aggregate_Min (Some a)]\<rparr>)"
  using assms by (simp add: process_addresses_unfold emit_def)

theorem no_range_step_witness:
  "{''0xA''} \<noteq> ({} :: address set)
   \<and> fst (get_block_numbers_for_search scenario_indexer {''0xA''} (Some 12) synced_world) = None
   \<and> process_addresses timeout_finder keep_element scenario_indexer {''0xA''} (Some 12)
         synced_world =
         (Inr ([], None, 12, True), scenario_indexer,
          \<lparr>rows = [(''0xA'', 5)], trace = [Db_Aggregate_Min (Some {''0xA''})]\<rparr>)"
proof -
  have h1: "{''0xA''} \<noteq> ({} :: address set)"
    by simp
  have h2: "fst (get_block_numbers_for_search scenario_indexer {''0xA''} (Some 12)
                   synced_world) = None"
    by (simp add: search_result get_from_block_number_def synced_world_def address_in_def
          scenario_indexer_def current_or_client_def)
  from no_range_step [OF h1 h2, of timeout_finder keep_element]
  have "process_addresses timeout_finder keep_element scenario_indexer {''0xA''} (Some 12)
          synced_world =
          (Inr ([], None, 12, True), scenario_indexer,
           \<lparr>rows = [(''0xA'', 5)], trace = [Db_Aggregate_Min (Some {''0xA''})]\<rparr>)"
    by (simp add: synced_world_def scenario_current)
  with h1 h2 show ?thesis
    by simp
qed

end
